theory Spec2Isabelle
  imports Main "HOL-Library.Sublist"
begin

section \<open>Strings and character classes\<close>

text \<open>
  A Python \<open>str\<close> is a sequence of Unicode code points; it is modelled as a list of
  natural numbers. The regular expressions of \<open>main.py\<close> use the classes \<open>\w\<close>
  (alphanumeric or underscore) and \<open>\s\<close> (whitespace), and \<open>str.strip\<close> removes
  whitespace of the same class. For code points below 128 the classes are written out;
  for the others the Unicode tables of the interpreter are a parameter \<open>ucd\<close>.
\<close>

type_synonym pystr = "nat list"

definition str :: "string \<Rightarrow> pystr" where
  "str s = map of_char s"

datatype cclass = Word | Space | Other

definition ascii_class :: "nat \<Rightarrow> cclass" where
  "ascii_class c =
     (if (9 \<le> c \<and> c \<le> 13) \<or> (28 \<le> c \<and> c \<le> 32) then Space
      else if (48 \<le> c \<and> c \<le> 57) \<or> (65 \<le> c \<and> c \<le> 90) \<or> c = 95 \<or> (97 \<le> c \<and> c \<le> 122)
      then Word
      else Other)"

definition cclass_of :: "(nat \<Rightarrow> cclass) \<Rightarrow> nat \<Rightarrow> cclass" where
  "cclass_of ucd c = (if c < 128 then ascii_class c else ucd c)"

definition is_word :: "(nat \<Rightarrow> cclass) \<Rightarrow> nat \<Rightarrow> bool" where
  "is_word ucd c = (cclass_of ucd c = Word)"

definition is_space :: "(nat \<Rightarrow> cclass) \<Rightarrow> nat \<Rightarrow> bool" where
  "is_space ucd c = (cclass_of ucd c = Space)"

definition non_space :: "(nat \<Rightarrow> cclass) \<Rightarrow> nat \<Rightarrow> bool" where
  "non_space ucd c = (cclass_of ucd c \<noteq> Space)"

text \<open>\<open>s.strip()\<close>: leading and trailing whitespace removed.\<close>

definition strip :: "(nat \<Rightarrow> cclass) \<Rightarrow> pystr \<Rightarrow> pystr" where
  "strip ucd s = rev (dropWhile (is_space ucd) (rev (dropWhile (is_space ucd) s)))"

text \<open>\<open>sep.join(xs)\<close>.\<close>

fun join :: "pystr \<Rightarrow> pystr list \<Rightarrow> pystr" where
  "join sep [] = []"
| "join sep [x] = x"
| "join sep (x # y # ys) = x @ sep @ join sep (y # ys)"

text \<open>
  \<open>re.sub(r"\s+", " ", s)\<close>: every maximal run of whitespace becomes one space
  (code point 32).
\<close>

function re_sub_spaces :: "(nat \<Rightarrow> cclass) \<Rightarrow> pystr \<Rightarrow> pystr" where
  "re_sub_spaces ucd [] = []"
| "re_sub_spaces ucd (c # cs) =
     (if is_space ucd c then 32 # re_sub_spaces ucd (dropWhile (is_space ucd) cs)
      else c # re_sub_spaces ucd cs)"
  by pat_completeness auto
termination
  by (relation "measure (\<lambda>(ucd, s). length s)") (auto simp: length_dropWhile_le less_Suc_eq_le)

definition normalize_space :: "(nat \<Rightarrow> cclass) \<Rightarrow> pystr \<Rightarrow> pystr" where
  "normalize_space ucd s = strip ucd (re_sub_spaces ucd s)"

section \<open>The chunker\<close>

text \<open>
  \<open>re.findall(r"\w+|[^\w\s]", text)\<close>: scanning from the left, a maximal run of word
  characters is one match, any other non-space character is a match of its own, and
  whitespace is skipped.
\<close>

function re_findall_tokens :: "(nat \<Rightarrow> cclass) \<Rightarrow> pystr \<Rightarrow> pystr list" where
  "re_findall_tokens ucd [] = []"
| "re_findall_tokens ucd (c # cs) =
     (case cclass_of ucd c of
        Word \<Rightarrow> (c # takeWhile (is_word ucd) cs) # re_findall_tokens ucd (dropWhile (is_word ucd) cs)
      | Other \<Rightarrow> [c] # re_findall_tokens ucd cs
      | Space \<Rightarrow> re_findall_tokens ucd cs)"
  by pat_completeness auto
termination
  by (relation "measure (\<lambda>(ucd, s). length s)") (auto simp: length_dropWhile_le less_Suc_eq_le)

definition tokenize_len :: "(nat \<Rightarrow> cclass) \<Rightarrow> pystr \<Rightarrow> nat" where
  "tokenize_len ucd text = length (re_findall_tokens ucd text)"

text \<open>
  \<open>re.findall(r"\S+\s*", snip)\<close>: each match is a maximal run of non-space characters
  together with the whitespace that follows it; leading whitespace belongs to no match.
\<close>

function re_findall_words :: "(nat \<Rightarrow> cclass) \<Rightarrow> pystr \<Rightarrow> pystr list" where
  "re_findall_words ucd [] = []"
| "re_findall_words ucd (c # cs) =
     (if is_space ucd c then re_findall_words ucd cs
      else ((c # takeWhile (non_space ucd) cs)
              @ takeWhile (is_space ucd) (dropWhile (non_space ucd) cs))
           # re_findall_words ucd (dropWhile (is_space ucd) (dropWhile (non_space ucd) cs)))"
  by pat_completeness auto
termination
proof (relation "measure (\<lambda>(ucd, s). length s)")
  show "wf (measure (\<lambda>(ucd, s). length s))" by simp
next
  fix ucd :: "nat \<Rightarrow> cclass" and c :: nat and cs :: pystr
  show "((ucd, cs), (ucd, c # cs)) \<in> measure (\<lambda>(ucd, s). length s)" by simp
next
  fix ucd :: "nat \<Rightarrow> cclass" and c :: nat and cs :: pystr
  have "length (dropWhile (is_space ucd) (dropWhile (non_space ucd) cs))
          \<le> length (dropWhile (non_space ucd) cs)"
    by (rule length_dropWhile_le)
  also have "\<dots> \<le> length cs"
    by (rule length_dropWhile_le)
  finally show "((ucd, dropWhile (is_space ucd) (dropWhile (non_space ucd) cs)), (ucd, c # cs))
                  \<in> measure (\<lambda>(ucd, s). length s)"
    by simp
qed

text \<open>
  The inner loop of \<open>chunk_by_token_limit\<close> over the words of an oversized block. The
  state is \<open>(chunks, tmp, tmp_tokens)\<close>.
\<close>

fun pack_words ::
  "(nat \<Rightarrow> cclass) \<Rightarrow> int \<Rightarrow> pystr list \<Rightarrow> pystr list \<times> pystr list \<times> nat
     \<Rightarrow> pystr list \<times> pystr list \<times> nat"
where
  "pack_words ucd limit [] st = st"
| "pack_words ucd limit (w # ws) (chunks, tmp, tmp_tokens) =
     (let wt = tokenize_len ucd w in
      if int tmp_tokens + int wt > limit \<and> tmp \<noteq> []
      then pack_words ucd limit ws (chunks @ [strip ucd (concat tmp)], [w], wt)
      else pack_words ucd limit ws (chunks, tmp @ [w], tmp_tokens + wt))"

text \<open>
  The outer loop over the snippets. The state is \<open>(chunks, buf, buf_tokens)\<close>. The
  branch for an oversized snippet appends its sub-chunks to \<open>chunks\<close> and continues
  with \<open>buf\<close> and \<open>buf_tokens\<close> as they were.
\<close>

fun chunk_loop ::
  "(nat \<Rightarrow> cclass) \<Rightarrow> int \<Rightarrow> pystr list \<Rightarrow> pystr list \<times> pystr list \<times> nat
     \<Rightarrow> pystr list \<times> pystr list \<times> nat"
where
  "chunk_loop ucd limit [] st = st"
| "chunk_loop ucd limit (snip # rest) (chunks, buf, buf_tokens) =
     (let t = tokenize_len ucd snip in
      if int t > limit
      then (case pack_words ucd limit (re_findall_words ucd snip) (chunks, [], 0) of
              (chunks', tmp, tmp_tokens) \<Rightarrow>
                chunk_loop ucd limit rest
                  (if tmp \<noteq> [] then chunks' @ [strip ucd (concat tmp)] else chunks',
                   buf, buf_tokens))
      else if int buf_tokens + int t > limit \<and> buf \<noteq> []
      then chunk_loop ucd limit rest (chunks @ [strip ucd (join (str '' '') buf)], [snip], t)
      else chunk_loop ucd limit rest (chunks, buf @ [snip], buf_tokens + t))"

definition chunk_by_token_limit :: "(nat \<Rightarrow> cclass) \<Rightarrow> pystr list \<Rightarrow> int \<Rightarrow> pystr list" where
  "chunk_by_token_limit ucd snippets limit =
     (case chunk_loop ucd limit snippets ([], [], 0) of
        (chunks, buf, buf_tokens) \<Rightarrow>
          if buf \<noteq> [] then chunks @ [strip ucd (join (str '' '') buf)] else chunks)"


section \<open>Collaborators\<close>

text \<open>
  The HTML parser, the URL functions, the HTTP transport, the embedding model and the
  vector store are libraries and services outside \<open>main.py\<close>. The model takes them as
  parameters: a record of library functions and a record of services. A call that can
  raise returns a sum, \<open>Inl\<close> carrying the exception.
\<close>

text \<open>
  Every exception below is a Python \<open>Exception\<close>, so the \<open>except Exception\<close> clauses
  of \<open>main.py\<close> catch each of them. \<open>FetchError\<close> stands for what \<open>requests\<close> raises
  (network failure, timeout, \<open>raise_for_status\<close>), \<open>ExtractionError\<close> for what the parser
  raises, \<open>StoreError\<close> for what the Pinecone client raises, \<open>ConfigurationError\<close> for
  the \<open>RuntimeError\<close> of \<open>pc\<close> when the API key is not set, \<open>ValueError\<close> for what
  \<open>urljoin\<close> and \<open>urlparse\<close> raise on a malformed URL (for instance
  \<open>http://[bad\<close>), and \<open>IndexError\<close> for indexing an empty sequence.
\<close>

datatype exn =
  FetchError | ExtractionError | StoreError | ConfigurationError | ValueError | IndexError

record parsed_url =
  url_scheme :: pystr
  url_netloc :: pystr
  url_path :: pystr

text \<open>
  \<open>BeautifulSoup\<close> is \<open>BeautifulSoup(html, "html.parser")\<close>;
  \<open>decompose_all names soup\<close> is the tree after \<open>for tag in soup(names): tag.decompose()\<close>;
  \<open>anchors_href soup\<close> lists \<open>a["href"]\<close> for the tags of \<open>soup.find_all("a", href=True)\<close>;
  \<open>find_canonical_href soup\<close> is the \<open>href\<close> of the first \<open>link\<close> tag with
  \<open>rel=canonical\<close>, when there is such a tag and it has the attribute;
  \<open>contents_str tag\<close> lists \<open>str(c)\<close> for the children of the tag;
  \<open>get_text tag sep\<close> is \<open>tag.get_text(sep, strip=True)\<close>.
\<close>

record ('soup, 'tag) pylib =
  BeautifulSoup :: "pystr \<Rightarrow> exn + 'soup"
  decompose_all :: "string list \<Rightarrow> 'soup \<Rightarrow> 'soup"
  find_all :: "'soup \<Rightarrow> string list \<Rightarrow> 'tag list"
  find_first :: "'soup \<Rightarrow> string \<Rightarrow> 'tag option"
  anchors_href :: "'soup \<Rightarrow> pystr list"
  find_canonical_href :: "'soup \<Rightarrow> pystr option"
  contents_str :: "'tag \<Rightarrow> pystr list"
  get_text :: "'tag \<Rightarrow> pystr \<Rightarrow> pystr"
  soup_get_text :: "'soup \<Rightarrow> pystr \<Rightarrow> pystr"
  urljoin :: "pystr \<Rightarrow> pystr \<Rightarrow> exn + pystr"
  urlparse :: "pystr \<Rightarrow> exn + parsed_url"

record metadata =
  md_site_id :: "pystr option"
  md_page_url :: "pystr option"
  md_path :: "pystr option"
  md_chunk_html :: "pystr option"
  md_title :: "pystr option"

record 'vec vrecord =
  vr_id :: pystr
  vr_values :: 'vec
  vr_metadata :: metadata

record 'f qmatch =
  qm_score :: "'f option"
  qm_metadata :: "metadata option"

text \<open>
  The similarity score is a Python \<open>float\<close>. Its type is a parameter \<open>'f\<close>;
  \<open>float_zero\<close> is \<open>0.0\<close> and \<open>score_percent_of score\<close> is the value of
  \<open>int(round((score + 1) / 2 * 100))\<close> in the interpreter's arithmetic.
  \<open>http_get url\<close> is \<open>requests.get(url, timeout=30)\<close> followed by
  \<open>raise_for_status()\<close> and \<open>r.text\<close>.
\<close>

record ('vec, 'f, 'st) services =
  http_get :: "pystr \<Rightarrow> exn + pystr"
  encode :: "pystr list \<Rightarrow> 'vec list"
  embedding_dimension :: nat
  sha256_hexdigest :: "pystr \<Rightarrow> pystr"
  list_indexes :: "'st \<Rightarrow> exn + pystr list"
  create_index :: "'st \<Rightarrow> pystr \<Rightarrow> nat \<Rightarrow> exn + 'st"
  index_upsert :: "'st \<Rightarrow> pystr \<Rightarrow> 'vec vrecord list \<Rightarrow> exn + 'st"
  index_query :: "'st \<Rightarrow> pystr \<Rightarrow> 'vec \<Rightarrow> int \<Rightarrow> pystr \<Rightarrow> exn + 'f qmatch list"
  float_zero :: 'f
  score_percent_of :: "'f \<Rightarrow> int"

record config =
  PINECONE_API_KEY :: "pystr option"
  CHUNK_TOKEN_LIMIT :: int
  TOP_K :: int
  MAX_PAGES :: int

text \<open>
  The state a request runs in: the vector store, and a trace of the page fetches and
  the upsert calls made so far.
\<close>

datatype event = EvFetch pystr | EvUpsert pystr

record 'st world =
  store :: 'st
  trace :: "event list"

section \<open>Fetching, path resolution and passage extraction\<close>

text \<open>\<open>pc\<close>: the client handle, or the error raised when \<open>PINECONE_API_KEY\<close> is not set.\<close>

definition pc :: "config \<Rightarrow> exn + unit" where
  "pc cfg =
     (case PINECONE_API_KEY cfg of
        None \<Rightarrow> Inl ConfigurationError
      | Some k \<Rightarrow> if k = [] then Inl ConfigurationError else Inr ())"

text \<open>\<open>fetch_html\<close>; the fetch is recorded in the trace whether it succeeds or not.\<close>

definition fetch_html ::
  "('vec, 'f, 'st) services \<Rightarrow> 'st world \<Rightarrow> pystr \<Rightarrow> (exn + pystr) \<times> 'st world" where
  "fetch_html sv w page = (http_get sv page, w\<lparr>trace := trace w @ [EvFetch page]\<rparr>)"

text \<open>\<open>p or "/"\<close>.\<close>

definition or_slash :: "pystr \<Rightarrow> pystr" where
  "or_slash p = (if p \<noteq> [] then p else str ''/'')"

text \<open>
  \<open>detect_page_path\<close>. The inner expression is the \<open>try\<close> block: \<open>None\<close> when it ends
  without returning, also when an exception was raised in it and discarded. The final
  \<open>urlparse(url)\<close> is outside the \<open>try\<close>.
\<close>

definition detect_page_path :: "('soup, 'tag) pylib \<Rightarrow> pystr \<Rightarrow> pystr \<Rightarrow> exn + pystr" where
  "detect_page_path lib page html =
     (case (case BeautifulSoup lib html of
              Inl e \<Rightarrow> None
            | Inr soup \<Rightarrow>
                (case find_canonical_href lib soup of
                   None \<Rightarrow> None
                 | Some href \<Rightarrow>
                     if href \<noteq> []
                     then (case urljoin lib page href of
                             Inl e \<Rightarrow> None
                           | Inr abs_url \<Rightarrow>
                               (case urlparse lib abs_url of
                                  Inl e \<Rightarrow> None
                                | Inr u \<Rightarrow> Some (or_slash (url_path u))))
                     else None))
      of Some p \<Rightarrow> Inr p
       | None \<Rightarrow>
           (case urlparse lib page of
              Inl e \<Rightarrow> Inl e
            | Inr u \<Rightarrow> Inr (or_slash (url_path u))))"

text \<open>The loop of \<open>clean_html_and_get_dom_chunks\<close> over the candidate elements.\<close>

fun dom_blocks :: "('soup, 'tag) pylib \<Rightarrow> (nat \<Rightarrow> cclass) \<Rightarrow> 'tag list \<Rightarrow> pystr list \<Rightarrow> pystr list" where
  "dom_blocks lib ucd [] out = out"
| "dom_blocks lib ucd (tag # tags) out =
     (let inner_html = concat (contents_str lib tag);
          text = get_text lib tag (str '' '')
      in if text \<noteq> [] \<and> length text > 20
         then (let cleaned = normalize_space ucd inner_html
               in if cleaned \<noteq> [] then dom_blocks lib ucd tags (out @ [cleaned])
                  else dom_blocks lib ucd tags out)
         else dom_blocks lib ucd tags out)"

definition clean_html_and_get_dom_chunks ::
  "('soup, 'tag) pylib \<Rightarrow> (nat \<Rightarrow> cclass) \<Rightarrow> pystr \<Rightarrow> exn + pystr list" where
  "clean_html_and_get_dom_chunks lib ucd html =
     (case BeautifulSoup lib html of
        Inl e \<Rightarrow> Inl e
      | Inr soup0 \<Rightarrow>
          (let soup = decompose_all lib [''script'', ''style'', ''noscript''] soup0;
               blocks = find_all lib soup [''section'', ''article'', ''div'', ''p'', ''li''];
               out = dom_blocks lib ucd blocks []
           in if out = []
              then (let body = soup_get_text lib soup (str '' '')
                    in if body \<noteq> [] then Inr [normalize_space ucd body] else Inr out)
              else Inr out))"

section \<open>Titles and upserts\<close>

text \<open>
  The loop of \<open>extract_title_from_html\<close> over the tag names; \<open>None\<close> when the loop ends
  without returning.
\<close>

fun first_title :: "('soup, 'tag) pylib \<Rightarrow> (nat \<Rightarrow> cclass) \<Rightarrow> 'soup \<Rightarrow> string list \<Rightarrow> pystr option" where
  "first_title lib ucd s [] = None"
| "first_title lib ucd s (name # names) =
     (case find_first lib s name of
        None \<Rightarrow> first_title lib ucd s names
      | Some t \<Rightarrow>
          if get_text lib t [] \<noteq> []
          then Some (take 140 (normalize_space ucd (get_text lib t (str '' ''))))
          else first_title lib ucd s names)"

definition extract_title_from_html ::
  "('soup, 'tag) pylib \<Rightarrow> (nat \<Rightarrow> cclass) \<Rightarrow> pystr \<Rightarrow> exn + pystr" where
  "extract_title_from_html lib ucd html =
     (case (case BeautifulSoup lib html of
              Inl e \<Rightarrow> None
            | Inr s \<Rightarrow>
                first_title lib ucd s [''h1'', ''h2'', ''h3'', ''strong'', ''b'', ''p'', ''li''])
      of Some t \<Rightarrow> Inr t
       | None \<Rightarrow>
           (case BeautifulSoup lib html of
              Inl e \<Rightarrow> Inl e
            | Inr s \<Rightarrow> Inr (take 140 (normalize_space ucd (soup_get_text lib s (str '' ''))))))"

text \<open>\<open>str(i)\<close> for a non-negative index.\<close>

fun decimal :: "nat \<Rightarrow> pystr" where
  "decimal n = (if n < 10 then [48 + n] else decimal (n div 10) @ [48 + n mod 10])"

declare decimal.simps [simp del]

text \<open>The loop of \<open>upsert_chunks\<close> that builds \<open>to_upsert\<close>, from index \<open>i\<close> on.\<close>

fun build_vectors ::
  "('soup, 'tag) pylib \<Rightarrow> (nat \<Rightarrow> cclass) \<Rightarrow> ('vec, 'f, 'st) services \<Rightarrow> pystr \<Rightarrow> pystr \<Rightarrow> pystr
     \<Rightarrow> nat \<Rightarrow> (pystr \<times> 'vec) list \<Rightarrow> exn + 'vec vrecord list"
where
  "build_vectors lib ucd sv site_id page page_path i [] = Inr []"
| "build_vectors lib ucd sv site_id page page_path i ((html, v) # rest) =
     (case extract_title_from_html lib ucd html of
        Inl e \<Rightarrow> Inl e
      | Inr t \<Rightarrow>
          (case build_vectors lib ucd sv site_id page page_path (Suc i) rest of
             Inl e \<Rightarrow> Inl e
           | Inr recs \<Rightarrow>
               Inr (\<lparr>vr_id = take 40 (sha256_hexdigest sv (page @ str ''#'' @ decimal i)),
                     vr_values = v,
                     vr_metadata = \<lparr>md_site_id = Some site_id, md_page_url = Some page,
                                    md_path = Some page_path, md_chunk_html = Some html,
                                    md_title = Some t\<rparr>\<rparr> # recs)))"

text \<open>
  \<open>upsert_chunks\<close>; the call of \<open>index.upsert\<close> is recorded in the trace whether it
  succeeds or not, and a call that fails leaves the store as it was.
\<close>

definition upsert_chunks ::
  "('soup, 'tag) pylib \<Rightarrow> (nat \<Rightarrow> cclass) \<Rightarrow> ('vec, 'f, 'st) services \<Rightarrow> 'st world \<Rightarrow> pystr \<Rightarrow> pystr
     \<Rightarrow> pystr \<Rightarrow> pystr \<Rightarrow> pystr list \<Rightarrow> (exn + unit) \<times> 'st world"
where
  "upsert_chunks lib ucd sv w index_name site_id page page_path chunks =
     (let vecs = encode sv chunks in
      case build_vectors lib ucd sv site_id page page_path 0 (zip chunks vecs) of
        Inl e \<Rightarrow> (Inl e, w)
      | Inr to_upsert \<Rightarrow>
          (let w' = w\<lparr>trace := trace w @ [EvUpsert page]\<rparr> in
           case index_upsert sv (store w) index_name to_upsert of
             Inl e \<Rightarrow> (Inl e, w')
           | Inr st \<Rightarrow> (Inr (), w'\<lparr>store := st\<rparr>)))"

section \<open>Retrieval\<close>

record 'f result =
  raw_score :: 'f
  score_percent :: int
  chunk_html :: pystr
  title :: "pystr option"
  path :: pystr
  page_url :: "pystr option"

definition empty_metadata :: metadata where
  "empty_metadata = \<lparr>md_site_id = None, md_page_url = None, md_path = None,
                      md_chunk_html = None, md_title = None\<rparr>"

definition to_result :: "('vec, 'f, 'st) services \<Rightarrow> 'f qmatch \<Rightarrow> 'f result" where
  "to_result sv m =
     (let md = (case qm_metadata m of None \<Rightarrow> empty_metadata | Some d \<Rightarrow> d);
          score = (case qm_score m of None \<Rightarrow> float_zero sv | Some x \<Rightarrow> x)
      in \<lparr>raw_score = score,
          score_percent = score_percent_of sv score,
          chunk_html = (case md_chunk_html md of None \<Rightarrow> [] | Some h \<Rightarrow> h),
          title = md_title md,
          path = (case md_path md of None \<Rightarrow> str ''/'' | Some p \<Rightarrow> p),
          page_url = md_page_url md\<rparr>)"

text \<open>The deduplication loop of \<open>search_top_k\<close>; the state is \<open>(seen, uniq)\<close>.\<close>

fun dedupe :: "int \<Rightarrow> 'f result list \<Rightarrow> pystr set \<times> 'f result list \<Rightarrow> 'f result list" where
  "dedupe top_k [] (seen, uniq) = uniq"
| "dedupe top_k (r # rs) (seen, uniq) =
     (let k = take 200 (chunk_html r) in
      if k \<notin> seen \<and> chunk_html r \<noteq> []
      then (if int (length (uniq @ [r])) \<ge> top_k then uniq @ [r]
            else dedupe top_k rs (insert k seen, uniq @ [r]))
      else (if int (length uniq) \<ge> top_k then uniq
            else dedupe top_k rs (seen, uniq)))"

definition search_top_k ::
  "('vec, 'f, 'st) services \<Rightarrow> 'st world \<Rightarrow> pystr \<Rightarrow> pystr \<Rightarrow> pystr \<Rightarrow> int \<Rightarrow> exn + 'f result list"
where
  "search_top_k sv w index_name q site_id top_k =
     (case encode sv [q] of
        [] \<Rightarrow> Inl IndexError
      | qvec # _ \<Rightarrow>
          (case index_query sv (store w) index_name qvec (top_k * 3) site_id of
             Inl e \<Rightarrow> Inl e
           | Inr matches \<Rightarrow> Inr (dedupe top_k (map (to_result sv) matches) ({}, []))))"

section \<open>Link discovery\<close>

text \<open>
  The loop of \<open>same_domain_links\<close> over the anchors; the state is \<open>(seen, q)\<close>. An
  exception of \<open>urljoin\<close> or \<open>urlparse\<close> ends the loop and the function.
\<close>

definition site_ok :: "parsed_url \<Rightarrow> parsed_url \<Rightarrow> bool" where
  "site_ok origin u \<longleftrightarrow>
     (url_scheme u = str ''http'' \<or> url_scheme u = str ''https'')
     \<and> url_netloc u = url_netloc origin"

fun links_loop ::
  "('soup, 'tag) pylib \<Rightarrow> pystr \<Rightarrow> parsed_url \<Rightarrow> int \<Rightarrow> pystr list \<Rightarrow> pystr set \<times> pystr list
     \<Rightarrow> exn + pystr list"
where
  "links_loop lib start_url origin limit [] (seen, q) = Inr q"
| "links_loop lib start_url origin limit (a # as) (seen, q) =
     (if int (card seen) \<ge> limit then Inr q
      else (case urljoin lib start_url a of
              Inl e \<Rightarrow> Inl e
            | Inr href \<Rightarrow>
                (case urlparse lib href of
                   Inl e \<Rightarrow> Inl e
                 | Inr u \<Rightarrow>
                     if site_ok origin u \<and> href \<notin> seen
                     then (if int (length (q @ [href])) \<ge> limit then Inr (q @ [href])
                           else links_loop lib start_url origin limit as
                                  (insert href seen, q @ [href]))
                     else (if int (length q) \<ge> limit then Inr q
                           else links_loop lib start_url origin limit as (seen, q)))))"

definition same_domain_links ::
  "('soup, 'tag) pylib \<Rightarrow> pystr \<Rightarrow> pystr \<Rightarrow> int \<Rightarrow> exn + pystr list" where
  "same_domain_links lib start_url html limit =
     (case BeautifulSoup lib html of
        Inl e \<Rightarrow> Inl e
      | Inr soup \<Rightarrow>
          (case urlparse lib start_url of
             Inl e \<Rightarrow> Inl e
           | Inr origin \<Rightarrow>
               links_loop lib start_url origin limit (anchors_href lib soup)
                 ({start_url}, [start_url])))"

section \<open>The search request\<close>

record SearchRequest =
  req_url :: pystr
  req_query :: pystr

definition ensure_index :: "('vec, 'f, 'st) services \<Rightarrow> config \<Rightarrow> 'st \<Rightarrow> pystr \<Rightarrow> nat \<Rightarrow> exn + 'st" where
  "ensure_index sv cfg st name dim =
     (case pc cfg of
        Inl e \<Rightarrow> Inl e
      | Inr _ \<Rightarrow>
          (case list_indexes sv st of
             Inl e \<Rightarrow> Inl e
           | Inr existing \<Rightarrow>
               if name \<notin> set existing then create_index sv st name dim else Inr st))"

text \<open>
  The body of the \<open>try\<close> block for one page. The caller discards the exception
  (\<open>except Exception: continue\<close>) and keeps the state.
\<close>

definition index_page ::
  "('soup, 'tag) pylib \<Rightarrow> (nat \<Rightarrow> cclass) \<Rightarrow> ('vec, 'f, 'st) services \<Rightarrow> config \<Rightarrow> pystr \<Rightarrow> pystr
     \<Rightarrow> pystr \<Rightarrow> pystr \<Rightarrow> 'st world \<Rightarrow> pystr \<Rightarrow> (exn + unit) \<times> 'st world"
where
  "index_page lib ucd sv cfg index_name site_id start_url start_html w page =
     (case (if page = start_url then (Inr start_html, w) else fetch_html sv w page) of
        (Inl e, w') \<Rightarrow> (Inl e, w')
      | (Inr html, w') \<Rightarrow>
          (case detect_page_path lib page html of
             Inl e \<Rightarrow> (Inl e, w')
           | Inr page_path \<Rightarrow>
               (case clean_html_and_get_dom_chunks lib ucd html of
                  Inl e \<Rightarrow> (Inl e, w')
                | Inr snippets \<Rightarrow>
                    (let chunks = chunk_by_token_limit ucd snippets (CHUNK_TOKEN_LIMIT cfg) in
                     if chunks \<noteq> []
                     then upsert_chunks lib ucd sv w' index_name site_id page page_path chunks
                     else (Inr (), w')))))"

fun index_pages ::
  "('soup, 'tag) pylib \<Rightarrow> (nat \<Rightarrow> cclass) \<Rightarrow> ('vec, 'f, 'st) services \<Rightarrow> config \<Rightarrow> pystr \<Rightarrow> pystr
     \<Rightarrow> pystr \<Rightarrow> pystr \<Rightarrow> pystr list \<Rightarrow> 'st world \<Rightarrow> 'st world"
where
  "index_pages lib ucd sv cfg index_name site_id start_url start_html [] w = w"
| "index_pages lib ucd sv cfg index_name site_id start_url start_html (page # pages) w =
     index_pages lib ucd sv cfg index_name site_id start_url start_html pages
       (snd (index_page lib ucd sv cfg index_name site_id start_url start_html w page))"

text \<open>The branch of \<open>search\<close> taken when the probe is empty.\<close>

definition index_site ::
  "('soup, 'tag) pylib \<Rightarrow> (nat \<Rightarrow> cclass) \<Rightarrow> ('vec, 'f, 'st) services \<Rightarrow> config \<Rightarrow> pystr \<Rightarrow> pystr
     \<Rightarrow> 'st world \<Rightarrow> pystr \<Rightarrow> (exn + unit) \<times> 'st world"
where
  "index_site lib ucd sv cfg index_name site_id w start_url =
     (case fetch_html sv w start_url of
        (Inl e, w') \<Rightarrow> (Inl e, w')
      | (Inr start_html, w') \<Rightarrow>
          (case same_domain_links lib start_url start_html (MAX_PAGES cfg) of
             Inl e \<Rightarrow> (Inl e, w')
           | Inr urls \<Rightarrow>
               (Inr (), index_pages lib ucd sv cfg index_name site_id start_url start_html urls w')))"

definition index_name_of :: "('vec, 'f, 'st) services \<Rightarrow> pystr" where
  "index_name_of sv = str ''html-chunks-v3-'' @ decimal (embedding_dimension sv)"

text \<open>The site id of \<open>search\<close>: \<open>urlparse(req.url)\<close>, then scheme and netloc.\<close>

definition site_id_of :: "('soup, 'tag) pylib \<Rightarrow> pystr \<Rightarrow> exn + pystr" where
  "site_id_of lib page =
     (case urlparse lib page of
        Inl e \<Rightarrow> Inl e
      | Inr u \<Rightarrow> Inr (url_scheme u @ str ''://'' @ url_netloc u))"

text \<open>
  \<open>search\<close>. The request URL is parsed after \<open>ensure_index\<close> and before the probe,
  outside any \<open>try\<close>. The client handle is cached by \<open>ensure_index\<close>, so the second
  \<open>pc()\<close> returns it without a check.
\<close>

definition search ::
  "('soup, 'tag) pylib \<Rightarrow> (nat \<Rightarrow> cclass) \<Rightarrow> ('vec, 'f, 'st) services \<Rightarrow> config \<Rightarrow> 'st world
     \<Rightarrow> SearchRequest \<Rightarrow> (exn + 'f result list) \<times> 'st world"
where
  "search lib ucd sv cfg w req =
     (let index_name = index_name_of sv
      in case ensure_index sv cfg (store w) index_name (embedding_dimension sv) of
           Inl e \<Rightarrow> (Inl e, w)
         | Inr st \<Rightarrow>
             (let w1 = w\<lparr>store := st\<rparr> in
              case site_id_of lib (req_url req) of
                Inl e \<Rightarrow> (Inl e, w1)
              | Inr site_id \<Rightarrow>
                  (case search_top_k sv w1 index_name (str ''the'') site_id 1 of
                     Inl e \<Rightarrow> (Inl e, w1)
                   | Inr probe \<Rightarrow>
                       (case (if probe = []
                              then index_site lib ucd sv cfg index_name site_id w1 (req_url req)
                              else (Inr (), w1))
                        of (Inl e, w2) \<Rightarrow> (Inl e, w2)
                         | (Inr _, w2) \<Rightarrow>
                             (search_top_k sv w2 index_name (req_query req) site_id (TOP_K cfg),
                              w2)))))"

section \<open>Notions used in the statements\<close>

text \<open>
  A chunk that is one whitespace-delimited fragment of an input block: it is not empty,
  holds no whitespace, and is the stripped text of one match of \<open>\S+\s*\<close> in a block.
\<close>

definition indivisible_fragment :: "(nat \<Rightarrow> cclass) \<Rightarrow> pystr list \<Rightarrow> pystr \<Rightarrow> bool" where
  "indivisible_fragment ucd snippets c \<longleftrightarrow>
     c \<noteq> [] \<and> (\<forall>x \<in> set c. non_space ucd x) \<and>
     (\<exists>s \<in> set snippets. \<exists>w \<in> set (re_findall_words ucd s). c = strip ucd w)"

definition within_limit :: "(nat \<Rightarrow> cclass) \<Rightarrow> pystr list \<Rightarrow> int \<Rightarrow> pystr \<Rightarrow> bool" where
  "within_limit ucd snippets limit c \<longleftrightarrow>
     int (tokenize_len ucd c) \<le> limit \<or> indivisible_fragment ucd snippets c"

text \<open>
  The elements of a list that are not in \<open>seen\<close>, each kept at its first occurrence
  only, in the order of the list.
\<close>

fun first_seen :: "'a set \<Rightarrow> 'a list \<Rightarrow> 'a list" where
  "first_seen seen [] = []"
| "first_seen seen (x # xs) =
     (if x \<in> seen then first_seen seen xs else x # first_seen (insert x seen) xs)"

text \<open>The key the retriever compares results by.\<close>

definition prefix200 :: "'f result \<Rightarrow> pystr" where
  "prefix200 r = take 200 (chunk_html r)"

text \<open>
  The results with non-empty content whose key is not in \<open>seen\<close>, each key kept at its
  first occurrence only, in the order of the list.
\<close>

fun first_by_prefix :: "pystr set \<Rightarrow> 'f result list \<Rightarrow> 'f result list" where
  "first_by_prefix seen [] = []"
| "first_by_prefix seen (r # rs) =
     (if prefix200 r \<notin> seen \<and> chunk_html r \<noteq> []
      then r # first_by_prefix (insert (prefix200 r) seen) rs
      else first_by_prefix seen rs)"

text \<open>
  The anchors the loop of \<open>same_domain_links\<close> can take without an exception: each
  anchor target of the longest prefix of the anchors on which \<open>urljoin\<close> and then
  \<open>urlparse\<close> return, as the pair of the absolute URL and its parse.
\<close>

fun resolved_prefix :: "('soup, 'tag) pylib \<Rightarrow> pystr \<Rightarrow> pystr list \<Rightarrow> (pystr \<times> parsed_url) list" where
  "resolved_prefix lib start_url [] = []"
| "resolved_prefix lib start_url (a # as) =
     (case urljoin lib start_url a of
        Inl e \<Rightarrow> []
      | Inr href \<Rightarrow>
          (case urlparse lib href of
             Inl e \<Rightarrow> []
           | Inr u \<Rightarrow> (href, u) # resolved_prefix lib start_url as))"


section \<open>A small instance of the collaborators\<close>

text \<open>
  For evaluating the model on examples: documents are given parsed, as the list of
  their elements in document order (tag name, inner markup, text), the page text and
  the anchor targets; the parser looks a page up in a table, rejects the pages listed in
  \<open>bad\<close>, and takes any other string as a document without elements that is its own
  text. Anchor targets are absolute, so \<open>urljoin\<close> returns the target; \<open>urljoin\<close> and
  \<open>urlparse\<close> raise on a URL with a square bracket. The web is a table from URL to
  page, the store is the list of the records upserted so far, and a query returns the
  first records of the site.
\<close>

record sample_doc =
  sd_elems :: "(string \<times> pystr \<times> pystr) list"
  sd_text :: pystr
  sd_hrefs :: "pystr list"

definition sample_urlparse :: "pystr \<Rightarrow> exn + parsed_url" where
  "sample_urlparse s =
     (if 91 \<in> set s then Inl ValueError
      else (let rest = drop 3 (dropWhile (\<lambda>c. c \<noteq> 58) s)
            in Inr \<lparr>url_scheme = takeWhile (\<lambda>c. c \<noteq> 58) s,
                    url_netloc = takeWhile (\<lambda>c. c \<noteq> 47) rest,
                    url_path = dropWhile (\<lambda>c. c \<noteq> 47) rest\<rparr>))"

definition sample_urljoin :: "pystr \<Rightarrow> pystr \<Rightarrow> exn + pystr" where
  "sample_urljoin base href = (if 91 \<in> set href then Inl ValueError else Inr href)"

definition sample_lib ::
  "(pystr \<times> sample_doc) list \<Rightarrow> pystr list \<Rightarrow> (sample_doc, string \<times> pystr \<times> pystr) pylib" where
  "sample_lib pages bad =
     \<lparr>BeautifulSoup = (\<lambda>html.
         if html \<in> set bad then Inl ExtractionError
         else (case map_of pages html of
                 None \<Rightarrow> Inr \<lparr>sd_elems = [], sd_text = html, sd_hrefs = []\<rparr>
               | Some d \<Rightarrow> Inr d)),
      decompose_all = (\<lambda>names d. d\<lparr>sd_elems := filter (\<lambda>e. fst e \<notin> set names) (sd_elems d)\<rparr>),
      find_all = (\<lambda>d names. filter (\<lambda>e. fst e \<in> set names) (sd_elems d)),
      find_first = (\<lambda>d name. find (\<lambda>e. fst e = name) (sd_elems d)),
      anchors_href = sd_hrefs,
      find_canonical_href = (\<lambda>d. None),
      contents_str = (\<lambda>e. [fst (snd e)]),
      get_text = (\<lambda>e sep. snd (snd e)),
      soup_get_text = (\<lambda>d sep. sd_text d),
      urljoin = sample_urljoin,
      urlparse = sample_urlparse\<rparr>"

definition sample_services ::
  "(pystr \<times> pystr) list \<Rightarrow> bool \<Rightarrow> (pystr, unit, pystr vrecord list) services" where
  "sample_services web upsert_ok =
     \<lparr>http_get = (\<lambda>u. case map_of web u of None \<Rightarrow> Inl FetchError | Some h \<Rightarrow> Inr h),
      encode = (\<lambda>texts. texts),
      embedding_dimension = 384,
      sha256_hexdigest = (\<lambda>s. s),
      list_indexes = (\<lambda>st. Inr []),
      create_index = (\<lambda>st name dim. Inr st),
      index_upsert = (\<lambda>st name recs. if upsert_ok then Inr (st @ recs) else Inl StoreError),
      index_query = (\<lambda>st name qvec k site.
         Inr (map (\<lambda>r. \<lparr>qm_score = Some (), qm_metadata = Some (vr_metadata r)\<rparr>)
                (take (nat k) (filter (\<lambda>r. md_site_id (vr_metadata r) = Some site) st)))),
      float_zero = (),
      score_percent_of = (\<lambda>x. 50)\<rparr>"

definition sample_config :: config where
  "sample_config = \<lparr>PINECONE_API_KEY = Some (str ''k''), CHUNK_TOKEN_LIMIT = 500, TOP_K = 10,
                     MAX_PAGES = 6\<rparr>"

definition no_ucd :: "nat \<Rightarrow> cclass" where
  "no_ucd c = Other"

text \<open>
  A sample site. The start page \<open>http://a/\<close> has the text \<open>hello world\<close> and five
  anchors; \<open>http://a/x\<close> serves \<open>X\<close>, which stands for a page the parser rejects,
  \<open>http://a/w\<close> cannot be fetched, \<open>http://a/z\<close> serves the text \<open>Z\<close>. The page at
  \<open>http://e/\<close> is the empty string. The page at \<open>http://c/\<close> has an anchor whose
  target is malformed. Of the two fragments, one has an empty \<open>h1\<close> element before a
  \<open>p\<close> and a \<open>li\<close> element with text, the other an empty \<open>h1\<close> element before a
  second \<open>h1\<close> and a \<open>li\<close> element with text.
\<close>

definition home_html :: pystr where
  "home_html = str ''hello world<a href=http://a/x></a><a href=http://b/y></a><a href=http://a/x></a><a href=http://a/w></a><a href=http://a/z></a>''"

definition home_doc :: sample_doc where
  "home_doc = \<lparr>sd_elems = [(''a'', [], []), (''a'', [], []), (''a'', [], []), (''a'', [], []),
                            (''a'', [], [])],
                sd_text = str ''hello world'',
                sd_hrefs = [str ''http://a/x'', str ''http://b/y'', str ''http://a/x'',
                            str ''http://a/w'', str ''http://a/z'']\<rparr>"

definition empty_doc :: sample_doc where
  "empty_doc = \<lparr>sd_elems = [], sd_text = [], sd_hrefs = []\<rparr>"

definition bad_link_html :: pystr where
  "bad_link_html = str ''<a href=http://[bad></a>''"

definition bad_link_doc :: sample_doc where
  "bad_link_doc = \<lparr>sd_elems = [(''a'', [], [])], sd_text = [], sd_hrefs = [str ''http://[bad'']\<rparr>"

definition title_html :: pystr where
  "title_html = str ''<h1></h1><p>Hi  there</p><li>more</li>''"

definition title_doc :: sample_doc where
  "title_doc = \<lparr>sd_elems = [(''h1'', [], []), (''p'', str ''Hi  there'', str ''Hi  there''),
                             (''li'', str ''more'', str ''more'')],
                 sd_text = str ''Hi  there more'', sd_hrefs = []\<rparr>"

definition headings_html :: pystr where
  "headings_html = str ''<h1></h1><h1>Title</h1><li>item</li>''"

definition headings_doc :: sample_doc where
  "headings_doc = \<lparr>sd_elems = [(''h1'', [], []), (''h1'', str ''Title'', str ''Title''),
                                (''li'', str ''item'', str ''item'')],
                    sd_text = str ''Title item'', sd_hrefs = []\<rparr>"

definition sample_docs :: "(pystr \<times> sample_doc) list" where
  "sample_docs = [(home_html, home_doc), (bad_link_html, bad_link_doc), (title_html, title_doc),
                  (headings_html, headings_doc)]"

definition sample_site :: "(sample_doc, string \<times> pystr \<times> pystr) pylib" where
  "sample_site = sample_lib sample_docs [str ''X'']"

definition sample_web :: "(pystr \<times> pystr) list" where
  "sample_web = [(str ''http://a/'', home_html), (str ''http://a/x'', str ''X''),
                 (str ''http://a/z'', str ''Z''), (str ''http://e/'', []),
                 (str ''http://c/'', bad_link_html)]"

definition sample_store :: "(pystr, unit, pystr vrecord list) services" where
  "sample_store = sample_services sample_web True"

definition failing_upserts :: "(pystr, unit, pystr vrecord list) services" where
  "failing_upserts = sample_services sample_web False"

definition empty_world :: "pystr vrecord list world" where
  "empty_world = \<lparr>store = [], trace = []\<rparr>"

definition request_a :: SearchRequest where
  "request_a = \<lparr>req_url = str ''http://a/'', req_query = str ''q''\<rparr>"

definition request_e :: SearchRequest where
  "request_e = \<lparr>req_url = str ''http://e/'', req_query = str ''q''\<rparr>"


definition request_x :: SearchRequest where
  "request_x = \<lparr>req_url = str ''http://a/x'', req_query = str ''q''\<rparr>"

definition failing_queries :: "(pystr, unit, pystr vrecord list) services" where
  "failing_queries = sample_store\<lparr>index_query := (\<lambda>st name qvec k site. Inl StoreError)\<rparr>"

definition home_result :: "unit result" where
  "home_result = \<lparr>raw_score = (), score_percent = 50, chunk_html = str ''hello world'',
                   title = Some (str ''hello world''), path = str ''/'',
                   page_url = Some (str ''http://a/'')\<rparr>"

definition z_result :: "unit result" where
  "z_result = \<lparr>raw_score = (), score_percent = 50, chunk_html = str ''Z'',
                title = Some (str ''Z''), path = str ''/z'',
                page_url = Some (str ''http://a/z'')\<rparr>"

text \<open>The state after a first request for the sample site, from the empty store.\<close>

definition indexed_world :: "pystr vrecord list world" where
  "indexed_world = snd (search sample_site no_ucd sample_store sample_config empty_world request_a)"

text \<open>
  A store that answers every query with the same list of matches, whatever number of
  matches is asked for, and five matches: two with the same content, one without
  content, and two more.
\<close>

definition content_match :: "pystr \<Rightarrow> unit qmatch" where
  "content_match h = \<lparr>qm_score = None,
                       qm_metadata = Some (empty_metadata\<lparr>md_chunk_html := Some h\<rparr>)\<rparr>"

definition content_result :: "pystr \<Rightarrow> unit result" where
  "content_result h = \<lparr>raw_score = (), score_percent = 50, chunk_html = h, title = None,
                        path = str ''/'', page_url = None\<rparr>"

definition fixed_answer_services ::
  "unit qmatch list \<Rightarrow> (pystr, unit, pystr vrecord list) services" where
  "fixed_answer_services ms =
     (sample_services [] True)\<lparr>index_query := (\<lambda>st name qvec k site. Inr ms)\<rparr>"

definition sample_matches :: "unit qmatch list" where
  "sample_matches = [content_match (str ''x''), content_match (str ''x''), content_match [],
                     content_match (str ''y''), content_match (str ''z'')]"

section \<open>Token counts\<close>

lemma tokens_dropWhile_word_le:
  "length (re_findall_tokens ucd (dropWhile (is_word ucd) b)) \<le> length (re_findall_tokens ucd b)"
  by (cases b) (auto simp: is_word_def split: cclass.splits)

lemma dropWhile_all: "(\<forall>x \<in> set xs. P x) \<Longrightarrow> dropWhile P xs = []"
  by (induction xs) auto

lemma tokens_append_le:
  "length (re_findall_tokens ucd (a @ b))
     \<le> length (re_findall_tokens ucd a) + length (re_findall_tokens ucd b)"
proof (induction ucd a rule: re_findall_tokens.induct)
  case (1 ucd)
  show ?case by simp
next
  case (2 ucd c cs)
  show ?case
  proof (cases "cclass_of ucd c")
    case Word
    show ?thesis
    proof (cases "\<forall>x \<in> set cs. is_word ucd x")
      case True
      then have "dropWhile (is_word ucd) (cs @ b) = dropWhile (is_word ucd) b"
        by (simp add: dropWhile_append2)
      then show ?thesis
        using True Word tokens_dropWhile_word_le [of ucd b] by (simp add: dropWhile_all)
    next
      case False
      then have "dropWhile (is_word ucd) (cs @ b) = dropWhile (is_word ucd) cs @ b"
        by (auto simp: dropWhile_append1)
      then show ?thesis
        using Word "2.IH"(1) by simp
    qed
  next
    case Space
    then show ?thesis using "2.IH" by simp
  next
    case Other
    then show ?thesis using "2.IH" by simp
  qed
qed

lemma tokens_prefix_le:
  "length (re_findall_tokens ucd a) \<le> length (re_findall_tokens ucd (a @ b))"
proof (induction ucd a rule: re_findall_tokens.induct)
  case (1 ucd)
  show ?case by simp
next
  case (2 ucd c cs)
  show ?case
  proof (cases "cclass_of ucd c")
    case Word
    show ?thesis
    proof (cases "\<forall>x \<in> set cs. is_word ucd x")
      case True
      then show ?thesis
        using Word by (simp add: dropWhile_all)
    next
      case False
      then have "dropWhile (is_word ucd) (cs @ b) = dropWhile (is_word ucd) cs @ b"
        by (auto simp: dropWhile_append1)
      then show ?thesis
        using Word "2.IH"(1) by simp
    qed
  next
    case Space
    then show ?thesis using "2.IH" by simp
  next
    case Other
    then show ?thesis using "2.IH" by simp
  qed
qed

lemma tokens_dropWhile_space:
  "re_findall_tokens ucd (dropWhile (is_space ucd) s) = re_findall_tokens ucd s"
  by (induction s) (auto simp: is_space_def)

lemma tokenize_len_strip_le: "tokenize_len ucd (strip ucd s) \<le> tokenize_len ucd s"
proof -
  let ?s' = "dropWhile (is_space ucd) s"
  have "rev (dropWhile (is_space ucd) (rev ?s')) @ rev (takeWhile (is_space ucd) (rev ?s'))
          = rev (takeWhile (is_space ucd) (rev ?s') @ dropWhile (is_space ucd) (rev ?s'))"
    by (simp only: rev_append)
  also have "\<dots> = ?s'"
    by (simp only: takeWhile_dropWhile_id rev_rev_ident)
  finally have "?s' = strip ucd s @ rev (takeWhile (is_space ucd) (rev ?s'))"
    by (simp only: strip_def)
  then have "tokenize_len ucd (strip ucd s) \<le> tokenize_len ucd ?s'"
    unfolding tokenize_len_def using tokens_prefix_le by metis
  then show ?thesis
    by (simp add: tokenize_len_def tokens_dropWhile_space)
qed

lemma tokenize_len_append_le:
  "tokenize_len ucd (a @ b) \<le> tokenize_len ucd a + tokenize_len ucd b"
  by (simp add: tokenize_len_def tokens_append_le)

lemma tokenize_len_concat_le:
  "tokenize_len ucd (concat ws) \<le> sum_list (map (tokenize_len ucd) ws)"
proof (induction ws)
  case Nil
  show ?case by (simp add: tokenize_len_def)
next
  case (Cons w ws)
  have "tokenize_len ucd (concat (w # ws)) \<le> tokenize_len ucd w + tokenize_len ucd (concat ws)"
    using tokenize_len_append_le by simp
  with Cons show ?case by simp
qed

lemma tokenize_len_space: "tokenize_len ucd (str '' '') = 0"
  by (simp add: tokenize_len_def str_def cclass_of_def ascii_class_def)

lemma tokenize_len_join_le:
  "tokenize_len ucd (join (str '' '') ws) \<le> sum_list (map (tokenize_len ucd) ws)"
proof (induction "str '' ''" ws rule: join.induct)
  case 1
  show ?case by (simp add: tokenize_len_def)
next
  case (2 x)
  show ?case by simp
next
  case (3 x y ys)
  have "tokenize_len ucd (x @ str '' '' @ join (str '' '') (y # ys))
          \<le> tokenize_len ucd x + (tokenize_len ucd (str '' '') + tokenize_len ucd (join (str '' '') (y # ys)))"
    by (meson tokenize_len_append_le add_left_mono order_trans)
  with 3 show ?case by (simp add: tokenize_len_space)
qed

lemma words_form:
  "w \<in> set (re_findall_words ucd s) \<Longrightarrow>
     \<exists>a b. w = a @ b \<and> a \<noteq> [] \<and> (\<forall>x \<in> set a. non_space ucd x) \<and> (\<forall>x \<in> set b. is_space ucd x)"
proof (induction ucd s rule: re_findall_words.induct)
  case (1 ucd)
  then show ?case by simp
next
  case (2 ucd c cs)
  show ?case
  proof (cases "is_space ucd c")
    case True
    with 2 show ?thesis by simp
  next
    case False
    let ?a = "c # takeWhile (non_space ucd) cs"
    let ?b = "takeWhile (is_space ucd) (dropWhile (non_space ucd) cs)"
    from False 2(3) consider "w = ?a @ ?b"
      | "w \<in> set (re_findall_words ucd (dropWhile (is_space ucd) (dropWhile (non_space ucd) cs)))"
      by auto
    then show ?thesis
    proof cases
      case 1
      have "\<forall>x \<in> set ?a. non_space ucd x"
        using False by (auto simp: non_space_def is_space_def dest: set_takeWhileD)
      moreover have "\<forall>x \<in> set ?b. is_space ucd x"
        by (auto dest: set_takeWhileD)
      ultimately show ?thesis using 1 by blast
    next
      case 2
      with False "2.IH"(2) show ?thesis by simp
    qed
  qed
qed

lemma strip_fragment:
  assumes "a \<noteq> []" "\<forall>x \<in> set a. non_space ucd x" "\<forall>x \<in> set b. is_space ucd x"
  shows "strip ucd (a @ b) = a"
proof -
  from assms(1,2) have h: "\<not> is_space ucd (hd a)"
    by (cases a) (auto simp: non_space_def is_space_def)
  from assms(1,2) have l: "\<not> is_space ucd (last a)"
    by (auto simp: non_space_def is_space_def)
  have "dropWhile (is_space ucd) (a @ b) = a @ b"
    using assms(1) h by (cases a) auto
  moreover have "dropWhile (is_space ucd) (rev b @ rev a) = rev a"
  proof -
    have "dropWhile (is_space ucd) (rev b @ rev a) = dropWhile (is_space ucd) (rev a)"
      using assms(3) by (intro dropWhile_append2) simp
    also have "\<dots> = rev a"
      using assms(1) l by (cases "rev a") (auto simp: hd_rev)
    finally show ?thesis .
  qed
  ultimately show ?thesis by (simp add: strip_def)
qed

lemma strip_word_fragment:
  assumes "s \<in> set snippets" "w \<in> set (re_findall_words ucd s)"
  shows "indivisible_fragment ucd snippets (strip ucd w)"
proof -
  from words_form [OF assms(2)] obtain a b where
    ab: "w = a @ b" "a \<noteq> []" "\<forall>x \<in> set a. non_space ucd x" "\<forall>x \<in> set b. is_space ucd x"
    by blast
  then have a: "strip ucd w = a" by (simp add: strip_fragment)
  have "\<exists>s \<in> set snippets. \<exists>v \<in> set (re_findall_words ucd s). strip ucd w = strip ucd v"
    using assms by blast
  with ab(2,3) a show ?thesis
    unfolding indivisible_fragment_def by simp
qed


lemma flush_tmp_within_limit:
  assumes "s \<in> set snippets" "set tmp \<subseteq> set (re_findall_words ucd s)" "tmp \<noteq> []"
    and "int (sum_list (map (tokenize_len ucd) tmp)) \<le> limit \<or> length tmp \<le> 1"
  shows "within_limit ucd snippets limit (strip ucd (concat tmp))"
proof (cases "int (sum_list (map (tokenize_len ucd) tmp)) \<le> limit")
  case True
  have "tokenize_len ucd (strip ucd (concat tmp)) \<le> tokenize_len ucd (concat tmp)"
    by (rule tokenize_len_strip_le)
  also have "\<dots> \<le> sum_list (map (tokenize_len ucd) tmp)"
    by (rule tokenize_len_concat_le)
  finally show ?thesis
    using True by (simp add: within_limit_def)
next
  case False
  with assms(3,4) obtain w where w: "tmp = [w]"
    by (cases tmp) auto
  with assms(2) have "w \<in> set (re_findall_words ucd s)" by simp
  then have "indivisible_fragment ucd snippets (strip ucd w)"
    using assms(1) by (simp add: strip_word_fragment)
  with w show ?thesis by (simp add: within_limit_def)
qed

lemma pack_words_inv:
  assumes "s \<in> set snippets"
    and "set ws \<subseteq> set (re_findall_words ucd s)"
    and "set tmp \<subseteq> set (re_findall_words ucd s)"
    and "\<forall>c \<in> set chunks. within_limit ucd snippets limit c"
    and "tmp_tokens = sum_list (map (tokenize_len ucd) tmp)"
    and "int tmp_tokens \<le> limit \<or> length tmp \<le> 1"
    and "pack_words ucd limit ws (chunks, tmp, tmp_tokens) = (chunks', tmp', tmp_tokens')"
  shows "(\<forall>c \<in> set chunks'. within_limit ucd snippets limit c)
         \<and> set tmp' \<subseteq> set (re_findall_words ucd s)
         \<and> (int (sum_list (map (tokenize_len ucd) tmp')) \<le> limit \<or> length tmp' \<le> 1)"
  using assms(2-)
proof (induction ws arbitrary: chunks tmp tmp_tokens)
  case Nil
  then show ?case by simp
next
  case (Cons w ws)
  let ?wt = "tokenize_len ucd w"
  show ?case
  proof (cases "int tmp_tokens + int ?wt > limit \<and> tmp \<noteq> []")
    case True
    have flush: "within_limit ucd snippets limit (strip ucd (concat tmp))"
      using flush_tmp_within_limit [OF assms(1) Cons.prems(2)] True Cons.prems(4,5) by simp
    have run: "pack_words ucd limit ws (chunks @ [strip ucd (concat tmp)], [w], ?wt)
                 = (chunks', tmp', tmp_tokens')"
      using Cons.prems(6) True by simp
    show ?thesis
    proof (rule Cons.IH [OF _ _ _ _ _ run])
      show "set ws \<subseteq> set (re_findall_words ucd s)" using Cons.prems(1) by simp
      show "set [w] \<subseteq> set (re_findall_words ucd s)" using Cons.prems(1) by simp
      show "\<forall>c \<in> set (chunks @ [strip ucd (concat tmp)]). within_limit ucd snippets limit c"
        using Cons.prems(3) flush by simp
      show "?wt = sum_list (map (tokenize_len ucd) [w])" by simp
      show "int ?wt \<le> limit \<or> length [w] \<le> 1" by simp
    qed
  next
    case False
    have run: "pack_words ucd limit ws (chunks, tmp @ [w], tmp_tokens + ?wt)
                 = (chunks', tmp', tmp_tokens')"
      using Cons.prems(6) False by auto
    show ?thesis
    proof (rule Cons.IH [OF _ _ _ _ _ run])
      show "set ws \<subseteq> set (re_findall_words ucd s)" using Cons.prems(1) by simp
      show "set (tmp @ [w]) \<subseteq> set (re_findall_words ucd s)" using Cons.prems(1,2) by simp
      show "\<forall>c \<in> set chunks. within_limit ucd snippets limit c" by (rule Cons.prems(3))
      show "tmp_tokens + ?wt = sum_list (map (tokenize_len ucd) (tmp @ [w]))"
        using Cons.prems(4) by simp
      show "int (tmp_tokens + ?wt) \<le> limit \<or> length (tmp @ [w]) \<le> 1"
        using False by auto
    qed
  qed
qed

lemma flush_buf_within_limit:
  assumes "int (sum_list (map (tokenize_len ucd) buf)) \<le> limit"
  shows "within_limit ucd snippets limit (strip ucd (join (str '' '') buf))"
proof -
  have "tokenize_len ucd (strip ucd (join (str '' '') buf)) \<le> tokenize_len ucd (join (str '' '') buf)"
    by (rule tokenize_len_strip_le)
  also have "\<dots> \<le> sum_list (map (tokenize_len ucd) buf)"
    by (rule tokenize_len_join_le)
  finally show ?thesis
    using assms by (simp add: within_limit_def)
qed

lemma chunk_loop_inv:
  assumes "set todo \<subseteq> set snippets"
    and "\<forall>c \<in> set chunks. within_limit ucd snippets limit c"
    and "buf_tokens = sum_list (map (tokenize_len ucd) buf)"
    and "buf \<noteq> [] \<longrightarrow> int buf_tokens \<le> limit"
    and "chunk_loop ucd limit todo (chunks, buf, buf_tokens) = (chunks', buf', buf_tokens')"
  shows "(\<forall>c \<in> set chunks'. within_limit ucd snippets limit c)
         \<and> (buf' \<noteq> [] \<longrightarrow> int (sum_list (map (tokenize_len ucd) buf')) \<le> limit)"
  using assms
proof (induction todo arbitrary: chunks buf buf_tokens)
  case Nil
  then show ?case by simp
next
  case (Cons snip rest)
  let ?t = "tokenize_len ucd snip"
  have snip: "snip \<in> set snippets" and rest: "set rest \<subseteq> set snippets"
    using Cons.prems(1) by simp_all
  show ?case
  proof (cases "int ?t > limit")
    case True
    obtain c1 tmp tt where pw:
      "pack_words ucd limit (re_findall_words ucd snip) (chunks, [], 0) = (c1, tmp, tt)"
      by (cases "pack_words ucd limit (re_findall_words ucd snip) (chunks, [], 0)") auto
    have inv: "(\<forall>c \<in> set c1. within_limit ucd snippets limit c)
         \<and> set tmp \<subseteq> set (re_findall_words ucd snip)
         \<and> (int (sum_list (map (tokenize_len ucd) tmp)) \<le> limit \<or> length tmp \<le> 1)"
      by (rule pack_words_inv [OF snip _ _ Cons.prems(2) _ _ pw]) simp_all
    let ?c2 = "if tmp \<noteq> [] then c1 @ [strip ucd (concat tmp)] else c1"
    have c2: "\<forall>c \<in> set ?c2. within_limit ucd snippets limit c"
      using inv flush_tmp_within_limit [OF snip, of tmp ucd limit] by auto
    have run: "chunk_loop ucd limit rest (?c2, buf, buf_tokens) = (chunks', buf', buf_tokens')"
      using Cons.prems(5) True pw by simp
    show ?thesis
      by (rule Cons.IH [OF rest c2 Cons.prems(3,4) run])
  next
    case False
    note small = this
    show ?thesis
    proof (cases "int buf_tokens + int ?t > limit \<and> buf \<noteq> []")
      case True
      have flush: "within_limit ucd snippets limit (strip ucd (join (str '' '') buf))"
        using flush_buf_within_limit Cons.prems(3,4) True by simp
      have run: "chunk_loop ucd limit rest (chunks @ [strip ucd (join (str '' '') buf)], [snip], ?t)
                   = (chunks', buf', buf_tokens')"
        using Cons.prems(5) small True by simp
      show ?thesis
      proof (rule Cons.IH [OF rest _ _ _ run])
        show "\<forall>c \<in> set (chunks @ [strip ucd (join (str '' '') buf)]). within_limit ucd snippets limit c"
          using Cons.prems(2) flush by simp
        show "?t = sum_list (map (tokenize_len ucd) [snip])" by simp
        show "[snip] \<noteq> [] \<longrightarrow> int ?t \<le> limit" using small by simp
      qed
    next
      case False
      have run: "chunk_loop ucd limit rest (chunks, buf @ [snip], buf_tokens + ?t)
                   = (chunks', buf', buf_tokens')"
        using Cons.prems(5) small False by auto
      show ?thesis
      proof (rule Cons.IH [OF rest Cons.prems(2) _ _ run])
        show "buf_tokens + ?t = sum_list (map (tokenize_len ucd) (buf @ [snip]))"
          using Cons.prems(3) by simp
        show "buf @ [snip] \<noteq> [] \<longrightarrow> int (buf_tokens + ?t) \<le> limit"
          using small False Cons.prems(3) by (cases "buf = []") auto
      qed
    qed
  qed
qed

lemma chunk_by_token_limit_all_within:
  assumes "c \<in> set (chunk_by_token_limit ucd snippets limit)"
  shows "within_limit ucd snippets limit c"
proof -
  obtain chunks buf bt where run: "chunk_loop ucd limit snippets ([], [], 0) = (chunks, buf, bt)"
    by (cases "chunk_loop ucd limit snippets ([], [], 0)") auto
  have inv: "(\<forall>c \<in> set chunks. within_limit ucd snippets limit c)
         \<and> (buf \<noteq> [] \<longrightarrow> int (sum_list (map (tokenize_len ucd) buf)) \<le> limit)"
    by (rule chunk_loop_inv [OF _ _ _ _ run]) simp_all
  show ?thesis
  proof (cases "buf = []")
    case True
    with assms run inv show ?thesis by (simp add: chunk_by_token_limit_def)
  next
    case False
    with inv have "within_limit ucd snippets limit (strip ucd (join (str '' '') buf))"
      by (simp add: flush_buf_within_limit)
    with assms run inv False show ?thesis by (auto simp: chunk_by_token_limit_def)
  qed
qed

section \<open>Properties of the chunker\<close>

text \<open>
  C1. The chunker is specified to emit chunks in the order of the input blocks, and to
  flush a non-empty buffer as its own chunk before the sub-chunks of an oversized block.
  The oversized branch of \<open>chunk_by_token_limit\<close> appends the sub-chunks and continues
  without flushing: with limit 2, the block \<open>a\<close> is buffered, the sub-chunks \<open>b c\<close> and
  \<open>d\<close> of the oversized block \<open>b c d\<close> are emitted ahead of it, and \<open>a\<close> is later
  merged with the block \<open>e\<close> that follows the oversized one.
\<close>

theorem oversized_block_overtakes_buffer:
  "chunk_by_token_limit no_ucd [str ''a'', str ''b c d'', str ''e''] 2
     = [str ''b c'', str ''d'', str ''a e'']"
  by code_simp

text \<open>
  C2. For every list of blocks and every positive limit, every chunk returned by
  \<open>chunk_by_token_limit\<close> has at most \<open>limit\<close> tokens, except a chunk that is a single
  whitespace-delimited fragment of a block and has more tokens than the limit by itself.
\<close>

theorem chunk_token_bound:
  assumes "0 < limit" and "c \<in> set (chunk_by_token_limit ucd snippets limit)"
  shows "int (tokenize_len ucd c) \<le> limit
         \<or> (indivisible_fragment ucd snippets c \<and> limit < int (tokenize_len ucd c))"
  using chunk_by_token_limit_all_within [OF assms(2)] by (auto simp: within_limit_def)

theorem chunk_token_bound_witness:
  "(0::int) < 2
   \<and> chunk_by_token_limit no_ucd [str ''a'', str ''b c dd,,, e'', str ''f g''] 2
       = [str ''b c'', str ''dd,,,'', str ''e'', str ''a'', str ''f g'']
   \<and> str ''dd,,,'' \<in> set (chunk_by_token_limit no_ucd [str ''a'', str ''b c dd,,, e'', str ''f g''] 2)
   \<and> indivisible_fragment no_ucd [str ''a'', str ''b c dd,,, e'', str ''f g''] (str ''dd,,,'')
   \<and> 2 < int (tokenize_len no_ucd (str ''dd,,,''))"
  using chunk_token_bound [of 2 "str ''dd,,,''" no_ucd "[str ''a'', str ''b c dd,,, e'', str ''f g'']"]
  by code_simp

section \<open>Properties of link discovery\<close>

lemma first_seen_set: "set (first_seen seen xs) = set xs - seen"
  by (induction xs arbitrary: seen) auto


lemma resolved_prefix_parse:
  assumes "(h, u) \<in> set (resolved_prefix lib start_url as)"
  shows "urlparse lib h = Inr u \<and> (\<exists>a \<in> set as. urljoin lib start_url a = Inr h)"
  using assms by (induction as) (auto split: sum.splits)

lemma links_loop_closed:
  assumes "seen = set q" and "distinct q"
    and "links_loop lib start_url origin limit as (seen, q) = Inr r"
  shows "r = q @ take (nat (limit - int (length q)))
                   (first_seen (set q)
                      (map fst (filter (\<lambda>hu. site_ok origin (snd hu))
                                  (resolved_prefix lib start_url as))))"
  using assms
proof (induction as arbitrary: seen q)
  case Nil
  then show ?case by simp
next
  case (Cons a as)
  have card: "card seen = length q"
    using Cons.prems(1,2) by (simp add: distinct_card)
  show ?case
  proof (cases "int (length q) \<ge> limit")
    case True
    then show ?thesis using card Cons.prems(3) by simp
  next
    case False
    note room = this
    from room card Cons.prems(3) obtain href where href: "urljoin lib start_url a = Inr href"
      by (cases "urljoin lib start_url a") auto
    from room card Cons.prems(3) href obtain u where u: "urlparse lib href = Inr u"
      by (cases "urlparse lib href") auto
    have prefix: "resolved_prefix lib start_url (a # as) = (href, u) # resolved_prefix lib start_url as"
      using href u by simp
    show ?thesis
    proof (cases "site_ok origin u \<and> href \<notin> seen")
      case True
      note fresh = this
      have pos: "nat (limit - int (length q)) = Suc (nat (limit - int (length q) - 1))"
        using room by simp
      show ?thesis
      proof (cases "int (length (q @ [href])) \<ge> limit")
        case True
        with room have "nat (limit - int (length q) - 1) = 0" by simp
        with pos have one: "nat (limit - int (length q)) = Suc 0" by simp
        have "r = q @ [href]"
          using Cons.prems(3) room card href u fresh True by simp
        then show ?thesis
          unfolding prefix using fresh one Cons.prems(1) by simp
      next
        case False
        have run: "links_loop lib start_url origin limit as (insert href seen, q @ [href]) = Inr r"
          using Cons.prems(3) room card href u fresh False by simp
        have ih: "r = (q @ [href]) @ take (nat (limit - int (length (q @ [href]))))
                    (first_seen (set (q @ [href]))
                       (map fst (filter (\<lambda>hu. site_ok origin (snd hu))
                                   (resolved_prefix lib start_url as))))"
          using fresh Cons.prems(1,2) by (intro Cons.IH [OF _ _ run]) auto
        have "nat (limit - int (length (q @ [href]))) = nat (limit - int (length q) - 1)"
          by simp
        with ih pos show ?thesis
          unfolding prefix using fresh Cons.prems(1) by simp
      qed
    next
      case False
      note stale = this
      have run: "links_loop lib start_url origin limit as (seen, q) = Inr r"
        using Cons.prems(3) room card href u stale by auto
      have ih: "r = q @ take (nat (limit - int (length q)))
                    (first_seen (set q)
                       (map fst (filter (\<lambda>hu. site_ok origin (snd hu))
                                   (resolved_prefix lib start_url as))))"
        by (rule Cons.IH [OF Cons.prems(1,2) run])
      show ?thesis
        unfolding prefix using stale ih Cons.prems(1) by auto
    qed
  qed
qed


lemma same_domain_links_closed:
  assumes "same_domain_links lib start_url html limit = Inr q"
  shows "\<exists>soup origin. BeautifulSoup lib html = Inr soup \<and> urlparse lib start_url = Inr origin
           \<and> q = start_url # take (nat (limit - 1))
                   (first_seen {start_url}
                      (map fst (filter (\<lambda>hu. site_ok origin (snd hu))
                                  (resolved_prefix lib start_url (anchors_href lib soup)))))"
proof -
  from assms obtain soup where soup: "BeautifulSoup lib html = Inr soup"
    by (cases "BeautifulSoup lib html") (auto simp: same_domain_links_def)
  from assms soup obtain origin where origin: "urlparse lib start_url = Inr origin"
    by (cases "urlparse lib start_url") (auto simp: same_domain_links_def)
  from assms soup origin have run:
    "links_loop lib start_url origin limit (anchors_href lib soup) ({start_url}, [start_url]) = Inr q"
    by (simp add: same_domain_links_def)
  have "q = [start_url] @ take (nat (limit - int (length [start_url])))
                   (first_seen (set [start_url])
                      (map fst (filter (\<lambda>hu. site_ok origin (snd hu))
                                  (resolved_prefix lib start_url (anchors_href lib soup)))))"
    by (rule links_loop_closed [OF _ _ run]) simp_all
  then have "q = start_url # take (nat (limit - 1))
                   (first_seen {start_url}
                      (map fst (filter (\<lambda>hu. site_ok origin (snd hu))
                                  (resolved_prefix lib start_url (anchors_href lib soup)))))"
    by simp
  with soup origin show ?thesis by blast
qed

lemma same_domain_links_urls_parse:
  assumes "same_domain_links lib start_url html limit = Inr urls" and "page \<in> set urls"
  shows "\<exists>u. urlparse lib page = Inr u"
proof -
  from same_domain_links_closed [OF assms(1)] obtain soup origin where
    origin: "urlparse lib start_url = Inr origin"
    and urls: "urls = start_url # take (nat (limit - 1))
                   (first_seen {start_url}
                      (map fst (filter (\<lambda>hu. site_ok origin (snd hu))
                                  (resolved_prefix lib start_url (anchors_href lib soup)))))"
    by blast
  show ?thesis
  proof (cases "page = start_url")
    case True
    with origin show ?thesis by simp
  next
    case False
    with assms(2) urls have "page \<in> set (first_seen {start_url}
                      (map fst (filter (\<lambda>hu. site_ok origin (snd hu))
                                  (resolved_prefix lib start_url (anchors_href lib soup)))))"
      by (auto dest: in_set_takeD)
    then obtain u where "(page, u) \<in> set (resolved_prefix lib start_url (anchors_href lib soup))"
      by (auto simp: first_seen_set)
    then show ?thesis using resolved_prefix_parse by blast
  qed
qed




section \<open>Properties of retrieval\<close>

lemma dedupe_inv:
  assumes "seen = prefix200 ` set uniq"
    and "distinct (map prefix200 uniq)"
    and "\<forall>r \<in> set uniq. chunk_html r \<noteq> []"
    and "uniq = [] \<or> int (length uniq) < top_k"
  shows "\<exists>ys. dedupe top_k rs (seen, uniq) = uniq @ ys \<and> subseq ys rs
           \<and> distinct (map prefix200 (uniq @ ys))
           \<and> (\<forall>r \<in> set (uniq @ ys). chunk_html r \<noteq> [])
           \<and> int (length (uniq @ ys)) \<le> max 1 top_k"
  using assms
proof (induction rs arbitrary: seen uniq)
  case Nil
  have "int (length uniq) \<le> max 1 top_k"
    using Nil.prems(4) by auto
  with Nil show ?case by simp
next
  case (Cons r rs)
  show ?case
  proof (cases "take 200 (chunk_html r) \<notin> seen \<and> chunk_html r \<noteq> []")
    case True
    note fresh = this
    have "prefix200 r \<notin> prefix200 ` set uniq"
      using fresh Cons.prems(1) by (simp add: prefix200_def)
    then have d: "distinct (map prefix200 (uniq @ [r]))"
      using Cons.prems(2) by simp
    have ne: "\<forall>x \<in> set (uniq @ [r]). chunk_html x \<noteq> []"
      using fresh Cons.prems(3) by simp
    show ?thesis
    proof (cases "int (length (uniq @ [r])) \<ge> top_k")
      case True
      have "int (length (uniq @ [r])) \<le> max 1 top_k"
        using Cons.prems(4) by auto
      moreover have "dedupe top_k (r # rs) (seen, uniq) = uniq @ [r]"
        using fresh True by simp
      moreover have "subseq [r] (r # rs)" by simp
      ultimately show ?thesis using d ne by blast
    next
      case False
      have "\<exists>ys. dedupe top_k rs (insert (take 200 (chunk_html r)) seen, uniq @ [r]) = (uniq @ [r]) @ ys
              \<and> subseq ys rs
              \<and> distinct (map prefix200 ((uniq @ [r]) @ ys))
              \<and> (\<forall>x \<in> set ((uniq @ [r]) @ ys). chunk_html x \<noteq> [])
              \<and> int (length ((uniq @ [r]) @ ys)) \<le> max 1 top_k"
      proof (intro Cons.IH)
        show "insert (take 200 (chunk_html r)) seen = prefix200 ` set (uniq @ [r])"
          using Cons.prems(1) by (simp add: prefix200_def)
        show "distinct (map prefix200 (uniq @ [r]))" by (rule d)
        show "\<forall>x \<in> set (uniq @ [r]). chunk_html x \<noteq> []" by (rule ne)
        show "uniq @ [r] = [] \<or> int (length (uniq @ [r])) < top_k" using False by simp
      qed
      then obtain ys where ys:
        "dedupe top_k rs (insert (take 200 (chunk_html r)) seen, uniq @ [r]) = (uniq @ [r]) @ ys"
        "subseq ys rs"
        "distinct (map prefix200 ((uniq @ [r]) @ ys))"
        "\<forall>x \<in> set ((uniq @ [r]) @ ys). chunk_html x \<noteq> []"
        "int (length ((uniq @ [r]) @ ys)) \<le> max 1 top_k"
        by blast
      have "dedupe top_k (r # rs) (seen, uniq) = uniq @ (r # ys)"
        using fresh False ys(1) by simp
      moreover have "subseq (r # ys) (r # rs)" using ys(2) by simp
      moreover have "(uniq @ [r]) @ ys = uniq @ (r # ys)" by simp
      ultimately show ?thesis using ys(3,4,5) by metis
    qed
  next
    case False
    note stale = this
    show ?thesis
    proof (cases "int (length uniq) \<ge> top_k")
      case True
      have "int (length uniq) \<le> max 1 top_k"
        using Cons.prems(4) by auto
      moreover have "dedupe top_k (r # rs) (seen, uniq) = uniq @ []"
        using stale True by auto
      moreover have "subseq [] (r # rs)" by simp
      ultimately show ?thesis using Cons.prems(2,3) by (metis append_Nil2)
    next
      case False
      have "\<exists>ys. dedupe top_k rs (seen, uniq) = uniq @ ys \<and> subseq ys rs
           \<and> distinct (map prefix200 (uniq @ ys))
           \<and> (\<forall>r \<in> set (uniq @ ys). chunk_html r \<noteq> [])
           \<and> int (length (uniq @ ys)) \<le> max 1 top_k"
        using Cons.prems by (intro Cons.IH) auto
      then obtain ys where ys:
        "dedupe top_k rs (seen, uniq) = uniq @ ys" "subseq ys rs"
        "distinct (map prefix200 (uniq @ ys))"
        "\<forall>r \<in> set (uniq @ ys). chunk_html r \<noteq> []"
        "int (length (uniq @ ys)) \<le> max 1 top_k"
        by blast
      have "dedupe top_k (r # rs) (seen, uniq) = uniq @ ys"
        using stale False ys(1) by auto
      moreover have "subseq ys (r # rs)" using ys(2) by (rule list_emb_Cons)
      ultimately show ?thesis using ys(3,4,5) by blast
    qed
  qed
qed

lemma dedupe_closed:
  assumes "int (length uniq) < top_k"
  shows "dedupe top_k rs (seen, uniq)
           = uniq @ take (nat top_k - length uniq) (first_by_prefix seen rs)"
  using assms
proof (induction rs arbitrary: seen uniq)
  case Nil
  then show ?case by simp
next
  case (Cons r rs)
  show ?case
  proof (cases "take 200 (chunk_html r) \<notin> seen \<and> chunk_html r \<noteq> []")
    case True
    note fresh = this
    have pos: "nat top_k - length uniq = Suc (nat top_k - length uniq - 1)"
      using Cons.prems by linarith
    show ?thesis
    proof (cases "int (length (uniq @ [r])) \<ge> top_k")
      case True
      with Cons.prems have "nat top_k - length uniq = Suc 0" by simp
      then show ?thesis using fresh True by (simp add: prefix200_def)
    next
      case False
      have "dedupe top_k rs (insert (take 200 (chunk_html r)) seen, uniq @ [r])
              = (uniq @ [r]) @ take (nat top_k - length (uniq @ [r]))
                   (first_by_prefix (insert (take 200 (chunk_html r)) seen) rs)"
        using False by (intro Cons.IH) simp
      then show ?thesis
        using fresh False pos by (simp add: prefix200_def)
    qed
  next
    case False
    have "dedupe top_k rs (seen, uniq) = uniq @ take (nat top_k - length uniq) (first_by_prefix seen rs)"
      using Cons.prems by (intro Cons.IH)
    then show ?thesis
      using False Cons.prems by (auto simp: prefix200_def)
  qed
qed

text \<open>
  C6 (amended). For every answer of the store to the query, \<open>search_top_k\<close> returns a
  subsequence of the answer, in the order of the store; no two results returned have the
  same first 200 characters of content, and none has empty content. For \<open>top_k\<close> at
  least 1 the results are the first \<open>top_k\<close> matches that have content and a prefix not
  seen before, so there are at most \<open>top_k\<close> of them. The loop tests the length after
  appending, so for \<open>top_k\<close> below 1 one result can be returned: the length is at most
  \<open>max 1 top_k\<close>.
\<close>

theorem search_top_k_result:
  assumes "encode sv [q] = qvec # vs"
    and "index_query sv (store w) index_name qvec (top_k * 3) site_id = Inr matches"
  shows "\<exists>rs. search_top_k sv w index_name q site_id top_k = Inr rs
           \<and> int (length rs) \<le> max 1 top_k
           \<and> subseq rs (map (to_result sv) matches)
           \<and> distinct (map prefix200 rs)
           \<and> (\<forall>r \<in> set rs. chunk_html r \<noteq> [])
           \<and> (1 \<le> top_k \<longrightarrow>
                rs = take (nat top_k) (first_by_prefix {} (map (to_result sv) matches)))"
proof -
  let ?out = "map (to_result sv) matches"
  have eq: "search_top_k sv w index_name q site_id top_k = Inr (dedupe top_k ?out ({}, []))"
    using assms by (simp add: search_top_k_def)
  obtain ys where ys: "dedupe top_k ?out ({}, []) = [] @ ys" "subseq ys ?out"
    "distinct (map prefix200 ([] @ ys))" "\<forall>r \<in> set ([] @ ys). chunk_html r \<noteq> []"
    "int (length ([] @ ys)) \<le> max 1 top_k"
    using dedupe_inv [of "{}" "[]" top_k ?out] by auto
  have closed: "1 \<le> top_k \<longrightarrow> dedupe top_k ?out ({}, []) = take (nat top_k) (first_by_prefix {} ?out)"
    using dedupe_closed [of "[]" top_k ?out "{}"] by simp
  show ?thesis
    using eq ys closed by simp
qed

theorem search_top_k_result_witness:
  "encode (fixed_answer_services sample_matches) [str ''q''] = [str ''q'']
   \<and> index_query (fixed_answer_services sample_matches) (store empty_world) (str ''i'') (str ''q'')
        (2 * 3) (str ''s'') = Inr sample_matches
   \<and> search_top_k (fixed_answer_services sample_matches) empty_world (str ''i'') (str ''q'') (str ''s'') 2
        = Inr [content_result (str ''x''), content_result (str ''y'')]
   \<and> (\<exists>rs. search_top_k (fixed_answer_services sample_matches) empty_world (str ''i'') (str ''q'')
               (str ''s'') 2 = Inr rs
          \<and> int (length rs) \<le> max 1 2
          \<and> subseq rs (map (to_result (fixed_answer_services sample_matches)) sample_matches)
          \<and> distinct (map prefix200 rs)
          \<and> (\<forall>r \<in> set rs. chunk_html r \<noteq> []))"
proof -
  have enc: "encode (fixed_answer_services sample_matches) [str ''q''] = [str ''q'']"
    by code_simp
  have ans: "index_query (fixed_answer_services sample_matches) (store empty_world) (str ''i'') (str ''q'')
        (2 * 3) (str ''s'') = Inr sample_matches"
    by code_simp
  have val: "search_top_k (fixed_answer_services sample_matches) empty_world (str ''i'') (str ''q'')
        (str ''s'') 2 = Inr [content_result (str ''x''), content_result (str ''y'')]"
    by code_simp
  from search_top_k_result [OF enc ans]
  have "\<exists>rs. search_top_k (fixed_answer_services sample_matches) empty_world (str ''i'') (str ''q'')
               (str ''s'') 2 = Inr rs
          \<and> int (length rs) \<le> max 1 2
          \<and> subseq rs (map (to_result (fixed_answer_services sample_matches)) sample_matches)
          \<and> distinct (map prefix200 rs)
          \<and> (\<forall>r \<in> set rs. chunk_html r \<noteq> [])"
    by blast
  with enc ans val show ?thesis by blast
qed

text \<open>
  The claim as stated, with no condition on \<open>top_k\<close>, fails at \<open>top_k = 0\<close> for a store
  whose answer starts with a match that has content: one result is returned.
\<close>

theorem top_k_zero_counterexample:
  "search_top_k (fixed_answer_services sample_matches) empty_world (str ''i'') (str ''q'') (str ''s'') 0
     = Inr [content_result (str ''x'')]
   \<and> \<not> int (length [content_result (str ''x'')]) \<le> 0"
  by code_simp

section \<open>Properties of extraction and titles\<close>

lemma dom_blocks_none:
  assumes "\<forall>tag \<in> set tags. length (get_text lib tag (str '' '')) \<le> 20"
  shows "dom_blocks lib ucd tags out = out"
  using assms by (induction tags arbitrary: out) (simp_all add: Let_def)

lemma detect_page_path_returns:
  assumes "urlparse lib page = Inr u"
  shows "\<exists>p. detect_page_path lib page html = Inr p"
  using assms by (simp add: detect_page_path_def split: option.splits sum.splits)

text \<open>
  C8. When no candidate element of a parsed document has a text longer than 20
  characters, \<open>clean_html_and_get_dom_chunks\<close> returns the single block that is the
  whitespace-normalized text of the page, or the empty list when the page has no text.
  A page whose extraction and chunking yield no chunk makes no upsert: the per-page body
  leaves the state as it was after the fetch. It raises nothing either, the URL of the
  page being one that \<open>urlparse\<close> accepts, as is every URL that link discovery returns.
\<close>

theorem extraction_fallback:
  "(BeautifulSoup lib html = Inr soup0 \<longrightarrow>
      (\<forall>tag \<in> set (find_all lib (decompose_all lib [''script'', ''style'', ''noscript''] soup0)
                       [''section'', ''article'', ''div'', ''p'', ''li'']).
          length (get_text lib tag (str '' '')) \<le> 20) \<longrightarrow>
      clean_html_and_get_dom_chunks lib ucd html
        = Inr (let body = soup_get_text lib (decompose_all lib [''script'', ''style'', ''noscript''] soup0)
                            (str '' '')
               in if body = [] then [] else [normalize_space ucd body]))
   \<and> ((if page = start_url then (Inr start_html, w) else fetch_html sv w page) = (Inr html, w') \<longrightarrow>
        clean_html_and_get_dom_chunks lib ucd html = Inr snippets \<longrightarrow>
        chunk_by_token_limit ucd snippets (CHUNK_TOKEN_LIMIT cfg) = [] \<longrightarrow>
        snd (index_page lib ucd sv cfg index_name site_id start_url start_html w page) = w'
        \<and> store w' = store w \<and> EvUpsert page \<notin> set (trace w') - set (trace w)
        \<and> (urlparse lib page = Inr pu \<longrightarrow>
             index_page lib ucd sv cfg index_name site_id start_url start_html w page = (Inr (), w')))
   \<and> (same_domain_links lib start_url start_html limit = Inr urls \<longrightarrow> page \<in> set urls \<longrightarrow>
        (\<exists>u. urlparse lib page = Inr u))"
proof (intro conjI impI)
  assume "BeautifulSoup lib html = Inr soup0"
    and "\<forall>tag \<in> set (find_all lib (decompose_all lib [''script'', ''style'', ''noscript''] soup0)
                       [''section'', ''article'', ''div'', ''p'', ''li'']).
          length (get_text lib tag (str '' '')) \<le> 20"
  then show "clean_html_and_get_dom_chunks lib ucd html
        = Inr (let body = soup_get_text lib (decompose_all lib [''script'', ''style'', ''noscript''] soup0)
                            (str '' '')
               in if body = [] then [] else [normalize_space ucd body])"
    by (simp add: clean_html_and_get_dom_chunks_def dom_blocks_none Let_def)
next
  assume f: "(if page = start_url then (Inr start_html, w) else fetch_html sv w page) = (Inr html, w')"
    and c: "clean_html_and_get_dom_chunks lib ucd html = Inr snippets"
    and z: "chunk_by_token_limit ucd snippets (CHUNK_TOKEN_LIMIT cfg) = []"
  from f c z show "snd (index_page lib ucd sv cfg index_name site_id start_url start_html w page) = w'"
    by (simp add: index_page_def Let_def split: sum.splits)
  from f show "store w' = store w"
    by (auto simp: fetch_html_def split: if_splits)
  from f show "EvUpsert page \<notin> set (trace w') - set (trace w)"
    by (auto simp: fetch_html_def split: if_splits)
  assume "urlparse lib page = Inr pu"
  then obtain p where "detect_page_path lib page html = Inr p"
    using detect_page_path_returns by blast
  with f c z show "index_page lib ucd sv cfg index_name site_id start_url start_html w page = (Inr (), w')"
    by (simp add: index_page_def Let_def)
next
  assume "same_domain_links lib start_url start_html limit = Inr urls" and "page \<in> set urls"
  then show "\<exists>u. urlparse lib page = Inr u"
    by (rule same_domain_links_urls_parse)
qed

theorem extraction_fallback_witness:
  "BeautifulSoup sample_site title_html = Inr title_doc
   \<and> find_all sample_site (decompose_all sample_site [''script'', ''style'', ''noscript''] title_doc)
        [''section'', ''article'', ''div'', ''p'', ''li'']
       = [(''p'', str ''Hi  there'', str ''Hi  there''), (''li'', str ''more'', str ''more'')]
   \<and> length (get_text sample_site (''p'', str ''Hi  there'', str ''Hi  there'') (str '' '')) \<le> 20
   \<and> length (get_text sample_site (''li'', str ''more'', str ''more'') (str '' '')) \<le> 20
   \<and> clean_html_and_get_dom_chunks sample_site no_ucd title_html
       = Inr (let body = soup_get_text sample_site
                           (decompose_all sample_site [''script'', ''style'', ''noscript''] title_doc)
                           (str '' '')
              in if body = [] then [] else [normalize_space no_ucd body])
   \<and> clean_html_and_get_dom_chunks sample_site no_ucd title_html = Inr [str ''Hi there more'']
   \<and> clean_html_and_get_dom_chunks sample_site no_ucd [] = Inr []
   \<and> chunk_by_token_limit no_ucd [] (CHUNK_TOKEN_LIMIT sample_config) = []
   \<and> urlparse sample_site (str ''http://e/'')
       = Inr \<lparr>url_scheme = str ''http'', url_netloc = str ''e'', url_path = str ''/''\<rparr>
   \<and> index_page sample_site no_ucd sample_store sample_config (str ''i'') (str ''s'')
        (str ''http://e/'') [] empty_world (str ''http://e/'') = (Inr (), empty_world)"
proof -
  have parsed: "BeautifulSoup sample_site title_html = Inr title_doc"
    by code_simp
  have cands: "find_all sample_site (decompose_all sample_site [''script'', ''style'', ''noscript''] title_doc)
        [''section'', ''article'', ''div'', ''p'', ''li'']
       = [(''p'', str ''Hi  there'', str ''Hi  there''), (''li'', str ''more'', str ''more'')]"
    by code_simp
  have short: "length (get_text sample_site (''p'', str ''Hi  there'', str ''Hi  there'') (str '' '')) \<le> 20"
    "length (get_text sample_site (''li'', str ''more'', str ''more'') (str '' '')) \<le> 20"
    by code_simp+
  have small: "\<forall>tag \<in> set (find_all sample_site
                 (decompose_all sample_site [''script'', ''style'', ''noscript''] title_doc)
                       [''section'', ''article'', ''div'', ''p'', ''li'']).
          length (get_text sample_site tag (str '' '')) \<le> 20"
    using short by (simp only: cands list.set ball_simps)
  have val: "clean_html_and_get_dom_chunks sample_site no_ucd title_html = Inr [str ''Hi there more'']"
    by code_simp
  have start: "(if str ''http://e/'' = str ''http://e/'' then (Inr [], empty_world)
                else fetch_html sample_store empty_world (str ''http://e/''))
                 = (Inr [], empty_world)"
    by simp
  have none: "clean_html_and_get_dom_chunks sample_site no_ucd [] = Inr []"
    by code_simp
  have zero: "chunk_by_token_limit no_ucd [] (CHUNK_TOKEN_LIMIT sample_config) = []"
    by code_simp
  have url: "urlparse sample_site (str ''http://e/'')
       = Inr \<lparr>url_scheme = str ''http'', url_netloc = str ''e'', url_path = str ''/''\<rparr>"
    by code_simp
  have fallback: "clean_html_and_get_dom_chunks sample_site no_ucd title_html
       = Inr (let body = soup_get_text sample_site
                           (decompose_all sample_site [''script'', ''style'', ''noscript''] title_doc)
                           (str '' '')
              in if body = [] then [] else [normalize_space no_ucd body])"
    using extraction_fallback [of sample_site title_html title_doc no_ucd] parsed small by blast
  have skipped: "index_page sample_site no_ucd sample_store sample_config (str ''i'') (str ''s'')
        (str ''http://e/'') [] empty_world (str ''http://e/'') = (Inr (), empty_world)"
    using extraction_fallback [where lib = sample_site and html = "[]" and ucd = no_ucd
        and page = "str ''http://e/''" and start_url = "str ''http://e/''" and start_html = "[]"
        and w = empty_world and sv = sample_store and w' = empty_world and snippets = "[]"
        and cfg = sample_config and index_name = "str ''i''" and site_id = "str ''s''"
        and pu = "\<lparr>url_scheme = str ''http'', url_netloc = str ''e'', url_path = str ''/''\<rparr>"]
      start none zero url
    by blast
  from parsed cands short fallback val none zero url skipped show ?thesis by blast
qed







text \<open>
  The claim as stated fails for a fragment whose first \<open>h1\<close> element is empty and whose
  second \<open>h1\<close> element has the text \<open>Title\<close>: the first of its heading, emphasis,
  paragraph and list-item elements that has text is a heading, and the title is the text
  of the list item.
\<close>

theorem later_heading_counterexample:
  "BeautifulSoup sample_site headings_html = Inr headings_doc
   \<and> find_all sample_site headings_doc [''h1'', ''h2'', ''h3'', ''strong'', ''b'', ''p'', ''li'']
       = [(''h1'', [], []), (''h1'', str ''Title'', str ''Title''), (''li'', str ''item'', str ''item'')]
   \<and> find (\<lambda>el. get_text sample_site el [] \<noteq> [])
         (find_all sample_site headings_doc [''h1'', ''h2'', ''h3'', ''strong'', ''b'', ''p'', ''li''])
       = Some (''h1'', str ''Title'', str ''Title'')
   \<and> take 140 (normalize_space no_ucd
         (get_text sample_site (''h1'', str ''Title'', str ''Title'') (str '' ''))) = str ''Title''
   \<and> extract_title_from_html sample_site no_ucd headings_html = Inr (str ''item'')
   \<and> str ''item'' \<noteq> str ''Title''"
  by code_simp

section \<open>Properties of the search request\<close>

lemma upsert_chunks_trace:
  "\<exists>t. trace (snd (upsert_chunks lib ucd sv w index_name site_id page page_path chunks)) = trace w @ t"
  by (auto simp: upsert_chunks_def Let_def split: sum.splits)

lemma upsert_chunks_failed_store:
  assumes "fst (upsert_chunks lib ucd sv w index_name site_id page page_path chunks) = Inl e"
  shows "store (snd (upsert_chunks lib ucd sv w index_name site_id page page_path chunks)) = store w"
  using assms by (auto simp: upsert_chunks_def Let_def split: sum.splits)

lemma index_page_trace:
  "\<exists>t. trace (snd (index_page lib ucd sv cfg index_name site_id start_url start_html w page))
         = trace w @ (if page = start_url then [] else [EvFetch page]) @ t"
proof (cases "page = start_url")
  case True
  show ?thesis
    using upsert_chunks_trace [of lib ucd sv w index_name site_id page]
    by (auto simp: index_page_def Let_def True split: sum.splits)
next
  case False
  let ?w = "w\<lparr>trace := trace w @ [EvFetch page]\<rparr>"
  show ?thesis
    using upsert_chunks_trace [of lib ucd sv ?w index_name site_id page]
    by (auto simp: index_page_def Let_def False fetch_html_def split: sum.splits)
qed

lemma index_page_failed_store:
  assumes "fst (index_page lib ucd sv cfg index_name site_id start_url start_html w page) = Inl e"
  shows "store (snd (index_page lib ucd sv cfg index_name site_id start_url start_html w page)) = store w"
proof (cases "page = start_url")
  case True
  show ?thesis
    using assms upsert_chunks_failed_store [of lib ucd sv w index_name site_id page]
    by (auto simp: index_page_def Let_def True split: sum.splits if_splits)
next
  case False
  let ?w = "w\<lparr>trace := trace w @ [EvFetch page]\<rparr>"
  show ?thesis
    using assms upsert_chunks_failed_store [of lib ucd sv ?w index_name site_id page]
    by (auto simp: index_page_def Let_def False fetch_html_def split: sum.splits if_splits)
qed

lemma index_pages_trace:
  "\<exists>t. trace (index_pages lib ucd sv cfg index_name site_id start_url start_html urls w) = trace w @ t"
proof (induction urls arbitrary: w)
  case Nil
  show ?case by simp
next
  case (Cons page pages)
  let ?w = "snd (index_page lib ucd sv cfg index_name site_id start_url start_html w page)"
  obtain t1 where "trace ?w = trace w @ t1"
    using index_page_trace [of lib ucd sv cfg index_name site_id start_url start_html w page]
    by auto
  moreover obtain t2 where
    "trace (index_pages lib ucd sv cfg index_name site_id start_url start_html pages ?w) = trace ?w @ t2"
    using Cons.IH by blast
  ultimately show ?case by simp
qed


lemma index_site_start_failed:
  assumes "http_get sv start_url = Inl e"
  shows "index_site lib ucd sv cfg index_name site_id w start_url
           = (Inl e, w\<lparr>trace := trace w @ [EvFetch start_url]\<rparr>)"
  using assms by (simp add: index_site_def fetch_html_def)

lemma index_site_run:
  assumes "http_get sv start_url = Inr start_html"
    and "same_domain_links lib start_url start_html (MAX_PAGES cfg) = Inr urls"
  shows "index_site lib ucd sv cfg index_name site_id w start_url
           = (Inr (), index_pages lib ucd sv cfg index_name site_id start_url start_html urls
                        (w\<lparr>trace := trace w @ [EvFetch start_url]\<rparr>))"
  using assms by (simp add: index_site_def fetch_html_def)

lemma search_probe_hit:
  assumes "ensure_index sv cfg (store w) (index_name_of sv) (embedding_dimension sv) = Inr st"
    and "site_id_of lib (req_url req) = Inr site_id"
    and "search_top_k sv (w\<lparr>store := st\<rparr>) (index_name_of sv) (str ''the'')
           site_id 1 = Inr probe"
    and "probe \<noteq> []"
  shows "search lib ucd sv cfg w req
           = (search_top_k sv (w\<lparr>store := st\<rparr>) (index_name_of sv) (req_query req)
                site_id (TOP_K cfg), w\<lparr>store := st\<rparr>)"
  using assms by (simp add: search_def Let_def)

lemma search_probe_miss:
  assumes "ensure_index sv cfg (store w) (index_name_of sv) (embedding_dimension sv) = Inr st"
    and "site_id_of lib (req_url req) = Inr site_id"
    and "search_top_k sv (w\<lparr>store := st\<rparr>) (index_name_of sv) (str ''the'')
           site_id 1 = Inr []"
  shows "search lib ucd sv cfg w req
           = (case index_site lib ucd sv cfg (index_name_of sv) site_id
                     (w\<lparr>store := st\<rparr>) (req_url req) of
                (Inl e, w2) \<Rightarrow> (Inl e, w2)
              | (Inr u, w2) \<Rightarrow>
                  (search_top_k sv w2 (index_name_of sv) (req_query req)
                     site_id (TOP_K cfg), w2))"
  using assms by (simp add: search_def Let_def)

lemma search_ok_final:
  assumes "fst (search lib ucd sv cfg w req) = Inr rs"
  shows "\<exists>site_id. site_id_of lib (req_url req) = Inr site_id
           \<and> search_top_k sv (snd (search lib ucd sv cfg w req)) (index_name_of sv) (req_query req)
                 site_id (TOP_K cfg) = Inr rs"
  using assms
  by (auto simp: search_def Let_def split: sum.splits prod.splits if_splits)

lemma search_site_id_failed:
  assumes "ensure_index sv cfg (store w) (index_name_of sv) (embedding_dimension sv) = Inr st"
    and "site_id_of lib (req_url req) = Inl e"
  shows "search lib ucd sv cfg w req = (Inl e, w\<lparr>store := st\<rparr>)"
  using assms by (simp add: search_def Let_def)

lemma index_site_trace:
  "\<exists>t. trace (snd (index_site lib ucd sv cfg index_name site_id w start_url))
         = trace w @ EvFetch start_url # t"
proof (cases "http_get sv start_url")
  case (Inl e)
  then show ?thesis by (simp add: index_site_start_failed)
next
  case (Inr start_html)
  show ?thesis
  proof (cases "same_domain_links lib start_url start_html (MAX_PAGES cfg)")
    case (Inl e)
    with Inr show ?thesis by (simp add: index_site_def fetch_html_def)
  next
    case (Inr urls)
    let ?w = "w\<lparr>trace := trace w @ [EvFetch start_url]\<rparr>"
    obtain t where
      "trace (index_pages lib ucd sv cfg index_name site_id start_url start_html urls ?w) = trace ?w @ t"
      using index_pages_trace by blast
    with \<open>http_get sv start_url = Inr start_html\<close> Inr show ?thesis
      by (simp add: index_site_run)
  qed
qed

lemma search_probe_miss_world:
  assumes "ensure_index sv cfg (store w) (index_name_of sv) (embedding_dimension sv) = Inr st"
    and "site_id_of lib (req_url req) = Inr site_id"
    and "search_top_k sv (w\<lparr>store := st\<rparr>) (index_name_of sv) (str ''the'')
           site_id 1 = Inr []"
  shows "snd (search lib ucd sv cfg w req)
           = snd (index_site lib ucd sv cfg (index_name_of sv) site_id
                    (w\<lparr>store := st\<rparr>) (req_url req))"
  by (simp add: search_probe_miss [OF assms] split: prod.splits sum.splits)

lemma search_indexing_run:
  assumes "ensure_index sv cfg (store w) (index_name_of sv) (embedding_dimension sv) = Inr st"
    and "site_id_of lib (req_url req) = Inr site_id"
    and "search_top_k sv (w\<lparr>store := st\<rparr>) (index_name_of sv) (str ''the'')
           site_id 1 = Inr []"
    and "http_get sv (req_url req) = Inr start_html"
    and "same_domain_links lib (req_url req) start_html (MAX_PAGES cfg) = Inr urls"
    and "w' = index_pages lib ucd sv cfg (index_name_of sv) site_id
                (req_url req) start_html urls
                (w\<lparr>store := st, trace := trace w @ [EvFetch (req_url req)]\<rparr>)"
  shows "search lib ucd sv cfg w req
           = (search_top_k sv w' (index_name_of sv) (req_query req)
                site_id (TOP_K cfg), w')"
  using assms(6)
  by (simp add: search_probe_miss [OF assms(1,2,3)] index_site_run [OF assms(4,5)])





lemma search_top_k_query_failed:
  assumes "encode sv [q] = qvec # vs"
    and "index_query sv (store w) index_name qvec (top_k * 3) site_id = Inl e"
  shows "search_top_k sv w index_name q site_id top_k = Inl e"
  using assms by (simp add: search_top_k_def)

lemma index_page_upsert_failed:
  assumes "(if page = start_url then (Inr start_html, w0) else fetch_html sv w0 page) = (Inr html, w1)"
    and "detect_page_path lib page html = Inr page_path"
    and "clean_html_and_get_dom_chunks lib ucd html = Inr snippets"
    and "chunk_by_token_limit ucd snippets (CHUNK_TOKEN_LIMIT cfg) = chunks"
    and "chunks \<noteq> []"
    and "build_vectors lib ucd sv site_id page page_path 0 (zip chunks (encode sv chunks)) = Inr recs"
    and "index_upsert sv (store w1) index_name recs = Inl e"
  shows "index_page lib ucd sv cfg index_name site_id start_url start_html w0 page
           = (Inl e, w1\<lparr>trace := trace w1 @ [EvUpsert page]\<rparr>)"
  using assms by (simp add: index_page_def upsert_chunks_def Let_def)

text \<open>
  C4 (amended). A request runs the indexing pass exactly when its probe returns no
  result. When the probe finds a chunk of the site, the request fetches nothing and
  upserts nothing: the trace is unchanged, the store is as \<open>ensure_index\<close> left it, and
  the answer is that of the final query. So a second request is a no-op after a first
  one that stored a chunk the probe finds. When the probe finds nothing, the request
  fetches the start page again, also when an earlier pass ran and stored nothing.
\<close>

theorem probe_decides_indexing:
  assumes "ensure_index sv cfg (store w) (index_name_of sv) (embedding_dimension sv) = Inr st"
    and "site_id_of lib (req_url req) = Inr site_id"
    and "search_top_k sv (w\<lparr>store := st\<rparr>) (index_name_of sv) (str ''the'')
           site_id 1 = Inr probe"
  shows "(probe \<noteq> [] \<longrightarrow>
            search lib ucd sv cfg w req
              = (search_top_k sv (w\<lparr>store := st\<rparr>) (index_name_of sv) (req_query req)
                   site_id (TOP_K cfg), w\<lparr>store := st\<rparr>)
            \<and> trace (snd (search lib ucd sv cfg w req)) = trace w
            \<and> store (snd (search lib ucd sv cfg w req)) = st)
         \<and> (probe = [] \<longrightarrow>
              (\<exists>t. trace (snd (search lib ucd sv cfg w req)) = trace w @ EvFetch (req_url req) # t))"
proof (intro conjI impI)
  assume hit: "probe \<noteq> []"
  show eq: "search lib ucd sv cfg w req
              = (search_top_k sv (w\<lparr>store := st\<rparr>) (index_name_of sv) (req_query req)
                   site_id (TOP_K cfg), w\<lparr>store := st\<rparr>)"
    by (rule search_probe_hit [OF assms hit])
  show "trace (snd (search lib ucd sv cfg w req)) = trace w"
    by (simp add: eq)
  show "store (snd (search lib ucd sv cfg w req)) = st"
    by (simp add: eq)
next
  assume "probe = []"
  with assms(3) have miss: "search_top_k sv (w\<lparr>store := st\<rparr>) (index_name_of sv) (str ''the'')
           site_id 1 = Inr []"
    by simp
  show "\<exists>t. trace (snd (search lib ucd sv cfg w req)) = trace w @ EvFetch (req_url req) # t"
    using index_site_trace [of lib ucd sv cfg "index_name_of sv" site_id
        "w\<lparr>store := st\<rparr>" "req_url req"]
    by (simp add: search_probe_miss_world [OF assms(1,2) miss])
qed

theorem probe_decides_indexing_witness:
  "ensure_index sample_store sample_config (store indexed_world) (index_name_of sample_store)
     (embedding_dimension sample_store) = Inr (store indexed_world)
   \<and> site_id_of sample_site (req_url request_a) = Inr (str ''http://a'')
   \<and> search_top_k sample_store (indexed_world\<lparr>store := store indexed_world\<rparr>) (index_name_of sample_store)
        (str ''the'') (str ''http://a'') 1 = Inr [home_result]
   \<and> [home_result] \<noteq> []
   \<and> trace indexed_world
        = [EvFetch (str ''http://a/''), EvUpsert (str ''http://a/''), EvFetch (str ''http://a/x''),
           EvFetch (str ''http://a/w''), EvFetch (str ''http://a/z''), EvUpsert (str ''http://a/z'')]
   \<and> trace (snd (search sample_site no_ucd sample_store sample_config indexed_world request_a))
        = trace indexed_world
   \<and> store (snd (search sample_site no_ucd sample_store sample_config indexed_world request_a))
        = store indexed_world
   \<and> fst (search sample_site no_ucd sample_store sample_config indexed_world request_a)
        = Inr [home_result, z_result]"
proof -
  have ens: "ensure_index sample_store sample_config (store indexed_world) (index_name_of sample_store)
     (embedding_dimension sample_store) = Inr (store indexed_world)"
    by code_simp
  have sid: "site_id_of sample_site (req_url request_a) = Inr (str ''http://a'')"
    by code_simp
  have probe: "search_top_k sample_store (indexed_world\<lparr>store := store indexed_world\<rparr>)
        (index_name_of sample_store) (str ''the'') (str ''http://a'') 1
          = Inr [home_result]"
    by code_simp
  have hit: "[home_result] \<noteq> []"
    by simp
  have first: "trace indexed_world
        = [EvFetch (str ''http://a/''), EvUpsert (str ''http://a/''), EvFetch (str ''http://a/x''),
           EvFetch (str ''http://a/w''), EvFetch (str ''http://a/z''), EvUpsert (str ''http://a/z'')]"
    by code_simp
  have res: "fst (search sample_site no_ucd sample_store sample_config indexed_world request_a)
        = Inr [home_result, z_result]"
    by code_simp
  have noop: "trace (snd (search sample_site no_ucd sample_store sample_config indexed_world request_a))
        = trace indexed_world
     \<and> store (snd (search sample_site no_ucd sample_store sample_config indexed_world request_a))
        = store indexed_world"
    using probe_decides_indexing [OF ens sid probe, of no_ucd] hit by blast
  from ens sid probe hit first noop res show ?thesis by blast
qed

text \<open>
  The claim as stated, for every site, fails for a site whose start page has no text:
  the first request stores nothing, and the second request fetches the page again.
\<close>

theorem empty_site_counterexample:
  "trace (snd (search sample_site no_ucd sample_store sample_config empty_world request_e))
     = [EvFetch (str ''http://e/'')]
   \<and> trace (snd (search sample_site no_ucd sample_store sample_config
         (snd (search sample_site no_ucd sample_store sample_config empty_world request_e))
         request_e))
     = [EvFetch (str ''http://e/''), EvFetch (str ''http://e/'')]"
  by code_simp



text \<open>
  The claim as stated, for any discovered page, fails for the first of them, the start
  page: when the parser rejects the start page, the failure is raised by link discovery,
  outside the \<open>try\<close>, and is the outcome of the request.
\<close>

theorem start_page_rejected_counterexample:
  "http_get sample_store (req_url request_x) = Inr (str ''X'')
   \<and> BeautifulSoup sample_site (str ''X'') = Inl ExtractionError
   \<and> search sample_site no_ucd sample_store sample_config empty_world request_x
       = (Inl ExtractionError, \<lparr>store = [], trace = [EvFetch (str ''http://a/x'')]\<rparr>)"
  by code_simp

text \<open>
  C3 (amended). A failure of \<open>ensure_index\<close> or of the probe query is the outcome of the
  request, and when the final query fails the request fails (the queries are made once
  the request URL is parsed). A failure of the upsert of a page's chunks is raised
  inside the per-page body, where the loop discards it: the loop goes on with the
  remaining pages, and the outcome of an indexing run is that of the final query.
\<close>

theorem store_failure_propagation:
  "(ensure_index sv cfg (store w) (index_name_of sv) (embedding_dimension sv) = Inl e \<longrightarrow>
      fst (search lib ucd sv cfg w req) = Inl e)
   \<and> (ensure_index sv cfg (store w) (index_name_of sv) (embedding_dimension sv) = Inr st \<longrightarrow>
      site_id_of lib (req_url req) = Inr site_id \<longrightarrow>
      encode sv [str ''the''] = qvec # vs \<longrightarrow>
      index_query sv st (index_name_of sv) qvec (1 * 3) site_id = Inl e \<longrightarrow>
      fst (search lib ucd sv cfg w req) = Inl e)
   \<and> (site_id_of lib (req_url req) = Inr site_id \<longrightarrow>
      encode sv [req_query req] = qvec' # vs' \<longrightarrow>
      index_query sv (store (snd (search lib ucd sv cfg w req))) (index_name_of sv) qvec'
        (TOP_K cfg * 3) site_id = Inl e \<longrightarrow>
      (\<exists>e'. fst (search lib ucd sv cfg w req) = Inl e'))
   \<and> ((if page = start_url then (Inr start_html, w0) else fetch_html sv w0 page) = (Inr html, w1) \<longrightarrow>
      clean_html_and_get_dom_chunks lib ucd html = Inr snippets \<longrightarrow>
      chunk_by_token_limit ucd snippets (CHUNK_TOKEN_LIMIT cfg) = chunks \<longrightarrow>
      chunks \<noteq> [] \<longrightarrow>
      detect_page_path lib page html = Inr page_path \<longrightarrow>
      build_vectors lib ucd sv site_id page page_path 0
        (zip chunks (encode sv chunks)) = Inr recs \<longrightarrow>
      index_upsert sv (store w1) index_name recs = Inl e \<longrightarrow>
      fst (index_page lib ucd sv cfg index_name site_id start_url start_html w0 page) = Inl e
      \<and> index_pages lib ucd sv cfg index_name site_id start_url start_html (page # pages) w0
          = index_pages lib ucd sv cfg index_name site_id start_url start_html pages
              (w1\<lparr>trace := trace w1 @ [EvUpsert page]\<rparr>))
   \<and> (ensure_index sv cfg (store w) (index_name_of sv) (embedding_dimension sv) = Inr st \<longrightarrow>
      site_id_of lib (req_url req) = Inr site_id \<longrightarrow>
      search_top_k sv (w\<lparr>store := st\<rparr>) (index_name_of sv) (str ''the'')
        site_id 1 = Inr [] \<longrightarrow>
      http_get sv (req_url req) = Inr first_html \<longrightarrow>
      same_domain_links lib (req_url req) first_html (MAX_PAGES cfg) = Inr urls \<longrightarrow>
      fst (search lib ucd sv cfg w req)
        = search_top_k sv
            (index_pages lib ucd sv cfg (index_name_of sv) site_id
               (req_url req) first_html urls
               (w\<lparr>store := st, trace := trace w @ [EvFetch (req_url req)]\<rparr>))
            (index_name_of sv) (req_query req) site_id (TOP_K cfg))"
proof (intro conjI impI)
  assume "ensure_index sv cfg (store w) (index_name_of sv) (embedding_dimension sv) = Inl e"
  then show "fst (search lib ucd sv cfg w req) = Inl e"
    by (simp add: search_def Let_def)
next
  assume ens: "ensure_index sv cfg (store w) (index_name_of sv) (embedding_dimension sv) = Inr st"
    and sid: "site_id_of lib (req_url req) = Inr site_id"
    and enc: "encode sv [str ''the''] = qvec # vs"
    and q: "index_query sv st (index_name_of sv) qvec (1 * 3) site_id = Inl e"
  have "search_top_k sv (w\<lparr>store := st\<rparr>) (index_name_of sv) (str ''the'')
          site_id 1 = Inl e"
    using q by (intro search_top_k_query_failed [OF enc]) simp
  with ens sid show "fst (search lib ucd sv cfg w req) = Inl e"
    by (simp add: search_def Let_def)
next
  assume sid: "site_id_of lib (req_url req) = Inr site_id"
    and enc: "encode sv [req_query req] = qvec' # vs'"
    and q: "index_query sv (store (snd (search lib ucd sv cfg w req))) (index_name_of sv) qvec'
        (TOP_K cfg * 3) site_id = Inl e"
  have failed: "search_top_k sv (snd (search lib ucd sv cfg w req)) (index_name_of sv) (req_query req)
           site_id (TOP_K cfg) = Inl e"
    by (rule search_top_k_query_failed [OF enc q])
  show "\<exists>e'. fst (search lib ucd sv cfg w req) = Inl e'"
  proof (cases "fst (search lib ucd sv cfg w req)")
    case (Inl e')
    then show ?thesis by blast
  next
    case (Inr rs)
    from search_ok_final [OF Inr] sid failed show ?thesis by auto
  qed
next
  assume a: "(if page = start_url then (Inr start_html, w0) else fetch_html sv w0 page) = (Inr html, w1)"
    "clean_html_and_get_dom_chunks lib ucd html = Inr snippets"
    "chunk_by_token_limit ucd snippets (CHUNK_TOKEN_LIMIT cfg) = chunks"
    "chunks \<noteq> []"
    "detect_page_path lib page html = Inr page_path"
    "build_vectors lib ucd sv site_id page page_path 0
        (zip chunks (encode sv chunks)) = Inr recs"
    "index_upsert sv (store w1) index_name recs = Inl e"
  have eq: "index_page lib ucd sv cfg index_name site_id start_url start_html w0 page
           = (Inl e, w1\<lparr>trace := trace w1 @ [EvUpsert page]\<rparr>)"
    by (rule index_page_upsert_failed [OF a(1) a(5) a(2) a(3) a(4) a(6) a(7)])
  show "fst (index_page lib ucd sv cfg index_name site_id start_url start_html w0 page) = Inl e"
    by (simp add: eq)
  show "index_pages lib ucd sv cfg index_name site_id start_url start_html (page # pages) w0
          = index_pages lib ucd sv cfg index_name site_id start_url start_html pages
              (w1\<lparr>trace := trace w1 @ [EvUpsert page]\<rparr>)"
    by (simp add: eq)
next
  assume "ensure_index sv cfg (store w) (index_name_of sv) (embedding_dimension sv) = Inr st"
    and "site_id_of lib (req_url req) = Inr site_id"
    and "search_top_k sv (w\<lparr>store := st\<rparr>) (index_name_of sv) (str ''the'')
        site_id 1 = Inr []"
    and "http_get sv (req_url req) = Inr first_html"
    and "same_domain_links lib (req_url req) first_html (MAX_PAGES cfg) = Inr urls"
  then show "fst (search lib ucd sv cfg w req)
        = search_top_k sv
            (index_pages lib ucd sv cfg (index_name_of sv) site_id
               (req_url req) first_html urls
               (w\<lparr>store := st, trace := trace w @ [EvFetch (req_url req)]\<rparr>))
            (index_name_of sv) (req_query req) site_id (TOP_K cfg)"
    by (simp add: search_indexing_run)
qed

theorem store_failure_propagation_witness:
  "ensure_index failing_queries sample_config (store empty_world) (index_name_of failing_queries)
     (embedding_dimension failing_queries) = Inr []
   \<and> site_id_of sample_site (req_url request_a) = Inr (str ''http://a'')
   \<and> encode failing_queries [str ''the''] = [str ''the'']
   \<and> index_query failing_queries [] (index_name_of failing_queries) (str ''the'') (1 * 3)
        (str ''http://a'') = Inl StoreError
   \<and> fst (search sample_site no_ucd failing_queries sample_config empty_world request_a) = Inl StoreError
   \<and> ensure_index failing_upserts sample_config (store empty_world) (index_name_of failing_upserts)
        (embedding_dimension failing_upserts) = Inr []
   \<and> search_top_k failing_upserts (empty_world\<lparr>store := []\<rparr>) (index_name_of failing_upserts)
        (str ''the'') (str ''http://a'') 1 = Inr []
   \<and> http_get failing_upserts (req_url request_a) = Inr home_html
   \<and> same_domain_links sample_site (req_url request_a) home_html (MAX_PAGES sample_config)
        = Inr [str ''http://a/'', str ''http://a/x'', str ''http://a/w'', str ''http://a/z'']
   \<and> fst (search sample_site no_ucd failing_upserts sample_config empty_world request_a)
        = search_top_k failing_upserts
            (index_pages sample_site no_ucd failing_upserts sample_config (index_name_of failing_upserts)
               (str ''http://a'') (req_url request_a) home_html
               [str ''http://a/'', str ''http://a/x'', str ''http://a/w'', str ''http://a/z'']
               (empty_world\<lparr>store := [], trace := trace empty_world @ [EvFetch (req_url request_a)]\<rparr>))
            (index_name_of failing_upserts) (req_query request_a)
            (str ''http://a'') (TOP_K sample_config)"
proof -
  have ens: "ensure_index failing_queries sample_config (store empty_world) (index_name_of failing_queries)
     (embedding_dimension failing_queries) = Inr []"
    by code_simp
  have sid: "site_id_of sample_site (req_url request_a) = Inr (str ''http://a'')"
    by code_simp
  have enc: "encode failing_queries [str ''the''] = [str ''the'']"
    by code_simp
  have q: "index_query failing_queries [] (index_name_of failing_queries) (str ''the'') (1 * 3)
        (str ''http://a'') = Inl StoreError"
    by code_simp
  have failed: "fst (search sample_site no_ucd failing_queries sample_config empty_world request_a)
                  = Inl StoreError"
    using store_failure_propagation [where sv = failing_queries and cfg = sample_config
        and w = empty_world and e = StoreError and lib = sample_site and ucd = no_ucd
        and req = request_a and st = "[]" and site_id = "str ''http://a''"
        and qvec = "str ''the''" and vs = "[]"]
      ens sid enc q
    by blast
  have ens': "ensure_index failing_upserts sample_config (store empty_world) (index_name_of failing_upserts)
        (embedding_dimension failing_upserts) = Inr []"
    by code_simp
  have probe: "search_top_k failing_upserts (empty_world\<lparr>store := []\<rparr>) (index_name_of failing_upserts)
        (str ''the'') (str ''http://a'') 1 = Inr []"
    by code_simp
  have got: "http_get failing_upserts (req_url request_a) = Inr home_html"
    by code_simp
  have links: "same_domain_links sample_site (req_url request_a) home_html (MAX_PAGES sample_config)
        = Inr [str ''http://a/'', str ''http://a/x'', str ''http://a/w'', str ''http://a/z'']"
    by code_simp
  have run: "fst (search sample_site no_ucd failing_upserts sample_config empty_world request_a)
        = search_top_k failing_upserts
            (index_pages sample_site no_ucd failing_upserts sample_config (index_name_of failing_upserts)
               (str ''http://a'') (req_url request_a) home_html
               [str ''http://a/'', str ''http://a/x'', str ''http://a/w'', str ''http://a/z'']
               (empty_world\<lparr>store := [], trace := trace empty_world @ [EvFetch (req_url request_a)]\<rparr>))
            (index_name_of failing_upserts) (req_query request_a)
            (str ''http://a'') (TOP_K sample_config)"
    using store_failure_propagation [where sv = failing_upserts and cfg = sample_config
        and w = empty_world and lib = sample_site and ucd = no_ucd and req = request_a
        and st = "[]" and site_id = "str ''http://a''" and first_html = home_html
        and urls = "[str ''http://a/'', str ''http://a/x'', str ''http://a/w'', str ''http://a/z'']"]
      ens' sid probe got links
    by blast
  from ens sid enc q failed ens' probe got links run show ?thesis by blast
qed

text \<open>
  The claim as stated fails for a store that rejects every upsert: the per-page body of
  the start page raises the store's error, and the request succeeds with no result.
\<close>

theorem upsert_failure_counterexample:
  "fst (index_page sample_site no_ucd failing_upserts sample_config (index_name_of failing_upserts)
          (str ''http://a'') (str ''http://a/'') home_html
          (empty_world\<lparr>trace := [EvFetch (str ''http://a/'')]\<rparr>) (str ''http://a/'')) = Inl StoreError
   \<and> search sample_site no_ucd failing_upserts sample_config empty_world request_a
       = (Inr [], \<lparr>store = [],
                   trace = [EvFetch (str ''http://a/''), EvUpsert (str ''http://a/''),
                            EvFetch (str ''http://a/x''), EvFetch (str ''http://a/w''),
                            EvFetch (str ''http://a/z''), EvUpsert (str ''http://a/z'')]\<rparr>)"
  by code_simp

end
